theory Spec2Isabelle
  imports Complex_Main "HOL-Library.Word" "HOL-Library.Multiset" "HOL-Library.Sublist"
begin

unbundle bit_operations_syntax

section \<open>Strings as the cache key sees them\<close>

text \<open>
  A JavaScript string is modelled as a \<^typ>\<open>string\<close> whose characters are the code
  units \<open>0 .. 255\<close> (ASCII and Latin-1).  On this range
  \<^verbatim>\<open>String.prototype.toLowerCase\<close> works unit by unit, \<^verbatim>\<open>trim\<close> removes the
  white-space and line-terminator units \<open>9 .. 13\<close>, \<open>32\<close> and \<open>160\<close>, and
  \<^verbatim>\<open>hash.update(string)\<close> hashes the UTF-8 encoding: one byte below \<open>128\<close>,
  two bytes from \<open>128\<close> on.
\<close>

definition isUpperCase :: "char \<Rightarrow> bool" where
  "isUpperCase c =
     (let n = (of_char c :: nat)
      in (65 \<le> n \<and> n \<le> 90) \<or> (192 \<le> n \<and> n \<le> 222 \<and> n \<noteq> 215))"

definition toLowerChar :: "char \<Rightarrow> char" where
  "toLowerChar c = (if isUpperCase c then char_of ((of_char c :: nat) + 32) else c)"

definition toLowerCase :: "string \<Rightarrow> string" where
  "toLowerCase s = map toLowerChar s"

definition isWhiteSpace :: "char \<Rightarrow> bool" where
  "isWhiteSpace c =
     (let n = (of_char c :: nat) in (9 \<le> n \<and> n \<le> 13) \<or> n = 32 \<or> n = 160)"

definition trim :: "string \<Rightarrow> string" where
  "trim s = rev (dropWhile isWhiteSpace (rev (dropWhile isWhiteSpace s)))"

definition utf8 :: "string \<Rightarrow> 8 word list" where
  "utf8 s =
     concat (map (\<lambda>c. let n = (of_char c :: nat)
                       in if n < 128 then [of_nat n]
                          else [of_nat (192 + n div 64), of_nat (128 + n mod 64)]) s)"

section \<open>SHA-256, as \<^verbatim>\<open>crypto.createHash('sha256')\<close> computes it\<close>

text \<open>
  The round constants are the first \<open>32\<close> bits of the fractional parts of the cube
  roots of the first \<open>64\<close> primes, the initial hash values those of the square roots
  of the first \<open>8\<close> primes.
\<close>

definition K256 :: "32 word list" where
  "K256 =
    [1116352408, 1899447441, 3049323471, 3921009573, 961987163, 1508970993,
     2453635748, 2870763221, 3624381080, 310598401, 607225278, 1426881987,
     1925078388, 2162078206, 2614888103, 3248222580, 3835390401, 4022224774,
     264347078, 604807628, 770255983, 1249150122, 1555081692, 1996064986,
     2554220882, 2821834349, 2952996808, 3210313671, 3336571891, 3584528711,
     113926993, 338241895, 666307205, 773529912, 1294757372, 1396182291,
     1695183700, 1986661051, 2177026350, 2456956037, 2730485921, 2820302411,
     3259730800, 3345764771, 3516065817, 3600352804, 4094571909, 275423344,
     430227734, 506948616, 659060556, 883997877, 958139571, 1322822218,
     1537002063, 1747873779, 1955562222, 2024104815, 2227730452, 2361852424,
     2428436474, 2756734187, 3204031479, 3329325298]"

definition H256 :: "32 word list" where
  "H256 =
    [0x6a09e667, 0xbb67ae85, 0x3c6ef372, 0xa54ff53a, 0x510e527f, 0x9b05688c, 0x1f83d9ab, 0x5be0cd19]"

definition be64 :: "nat \<Rightarrow> 8 word list" where
  "be64 n = map (\<lambda>i. ucast (drop_bit (8 * (7 - i)) (of_nat n :: 64 word))) [0..<8]"

definition sha_pad :: "8 word list \<Rightarrow> 8 word list" where
  "sha_pad m =
     m @ [0x80] @ replicate ((119 - length m mod 64) mod 64) 0 @ be64 (8 * length m)"

primrec blocks :: "nat \<Rightarrow> nat \<Rightarrow> 'a list \<Rightarrow> 'a list list" where
  "blocks n 0 xs = []"
| "blocks n (Suc k) xs = take n xs # blocks n k (drop n xs)"

definition be32 :: "8 word list \<Rightarrow> 32 word" where
  "be32 bs = foldl (\<lambda>acc b. push_bit 8 acc OR ucast b) 0 bs"

primrec schedule :: "nat \<Rightarrow> 32 word list \<Rightarrow> 32 word list" where
  "schedule 0 w = w"
| "schedule (Suc k) w =
     (let i = length w;
          w15 = w ! (i - 15);
          w2 = w ! (i - 2);
          s0 = word_rotr 7 w15 XOR word_rotr 18 w15 XOR drop_bit 3 w15;
          s1 = word_rotr 17 w2 XOR word_rotr 19 w2 XOR drop_bit 10 w2
      in schedule k (w @ [w ! (i - 16) + s0 + w ! (i - 7) + s1]))"

definition sha_round :: "32 word list \<Rightarrow> nat \<Rightarrow> 32 word list \<Rightarrow> 32 word list" where
  "sha_round w i v =
     (case v of
        [a, b, c, d, e, f, g, h] \<Rightarrow>
          (let S1 = word_rotr 6 e XOR word_rotr 11 e XOR word_rotr 25 e;
               ch = (e AND f) XOR (NOT e AND g);
               temp1 = h + S1 + ch + K256 ! i + w ! i;
               S0 = word_rotr 2 a XOR word_rotr 13 a XOR word_rotr 22 a;
               maj = (a AND b) XOR (a AND c) XOR (b AND c);
               temp2 = S0 + maj
           in [temp1 + temp2, a, b, c, d + temp1, e, f, g])
      | _ \<Rightarrow> v)"

definition compress :: "32 word list \<Rightarrow> 8 word list \<Rightarrow> 32 word list" where
  "compress hs block =
     (let w = schedule 48 (map be32 (blocks 4 16 block))
      in map2 (+) hs (fold (sha_round w) [0..<64] hs))"

definition sha256 :: "8 word list \<Rightarrow> 32 word list" where
  "sha256 m =
     (let p = sha_pad m in fold (\<lambda>block hs. compress hs block) (blocks 64 (length p div 64) p) H256)"

definition hexDigit :: "nat \<Rightarrow> char" where
  "hexDigit n = (if n < 10 then char_of (48 + n) else char_of (87 + n))"

definition hex32 :: "32 word \<Rightarrow> string" where
  "hex32 w = map (\<lambda>i. hexDigit (unat (drop_bit (4 * (7 - i)) w AND 0xF))) [0..<8]"

definition sha256_hex :: "8 word list \<Rightarrow> string" where
  "sha256_hex m = concat (map hex32 (sha256 m))"

section \<open>CacheManager.generateCacheKey\<close>

definition normalized :: "string \<Rightarrow> string \<Rightarrow> string \<Rightarrow> string" where
  "normalized title artist quality =
     trim (toLowerCase title) @ ''_'' @ trim (toLowerCase artist) @ ''_'' @ quality"

definition generateCacheKey :: "string \<Rightarrow> string \<Rightarrow> string \<Rightarrow> string" where
  "generateCacheKey title artist quality =
     take 16 (sha256_hex (utf8 (normalized title artist quality)))"


section \<open>The data model\<close>

text \<open>
  JavaScript treats \<^verbatim>\<open>null\<close>, \<^verbatim>\<open>undefined\<close> and the empty string as falsy; an
  optional string is \<^typ>\<open>string option\<close> and \<open>truthy\<close> is the test
  \<^verbatim>\<open>if (value)\<close>.
\<close>

definition truthy :: "string option \<Rightarrow> bool" where
  "truthy v = (case v of None \<Rightarrow> False | Some p \<Rightarrow> p \<noteq> [])"

text \<open>The file system: the existing paths with their sizes.\<close>

type_synonym filesystem = "string \<rightharpoonup> nat"

definition existsSync :: "filesystem \<Rightarrow> string \<Rightarrow> bool" where
  "existsSync fs p = (fs p \<noteq> None)"

datatype song_status = Queued | Processing | Ready | Playing | Completed | Failed

text \<open>
  The path columns of table \<^verbatim>\<open>songs\<close>; the same four keys form the argument of
  \<^verbatim>\<open>KaraokeDB.updateSongPaths\<close>.
\<close>

record path_columns =
  original_audio_path :: "string option"
  instrumental_path :: "string option"
  lyrics_path :: "string option"
  video_path :: "string option"

text \<open>
  A row of table \<^verbatim>\<open>songs\<close> (columns \<^verbatim>\<open>id\<close> and \<^verbatim>\<open>artist\<close> are
  \<open>song_id\<close> and \<open>song_artist\<close>).  The columns \<^verbatim>\<open>started_at\<close>,
  \<^verbatim>\<open>completed_at\<close> and \<^verbatim>\<open>search_query\<close> are never read and never updated
  by the code and are left out.  The table has no column for a failure reason.
\<close>

record song_row = path_columns +
  song_id :: string
  user_id :: string
  song_title :: string
  song_artist :: string
  status :: song_status
  processing_progress :: int
  requested_at :: nat

record user_row =
  user_name :: string
  user_color :: string

text \<open>A row of table \<^verbatim>\<open>processed_cache\<close>, without its surrogate \<^verbatim>\<open>id\<close>.\<close>

record cache_row =
  cache_key :: string
  title :: string
  artist :: string
  c_original_audio_path :: "string option"
  c_instrumental_path :: "string option"
  c_lyrics_path :: "string option"
  c_video_path :: "string option"
  youtube_video_id :: "string option"
  processing_quality :: string
  created_at :: nat
  last_accessed :: nat
  file_size :: nat

record files =
  original :: "string option"
  instrumental :: "string option"
  lyrics :: "string option"
  video :: "string option"

record metadata =
  md_title :: string
  md_artist :: string
  md_quality :: string
  md_youtubeVideoId :: "string option"

record ProcessedSong =
  cacheKey :: string
  files :: files
  metadata :: metadata

text \<open>
  \<^verbatim>\<open>AutonomousProcessingOptions\<close>: \<^verbatim>\<open>quality\<close> and \<^verbatim>\<open>outputFormat\<close> are
  required by \<^verbatim>\<open>ProcessingOptions\<close>, the other three are optional.
\<close>

record options =
  quality :: string
  outputFormat :: string
  useCache :: "bool option"
  maxTorrentWaitTime :: "nat option"
  maxYouTubeWaitTime :: "nat option"

record job =
  songId :: string
  job_options :: options

type_synonym LyricLine = "nat \<times> nat \<times> string"

text \<open>The calls a run makes to its collaborators.\<close>

datatype call =
    FindBestMatch string string
  | DownloadAudio string string
  | CheckUploadsDirectory string string
  | GetBestKaraokeVideo string string
  | SeparateVocals string options
  | FetchLyrics string string
  | SmartSynchronize string string
  | WriteFile string
  | Unlink string
  | ReplaceAudio string string string
  | OptimizeForStreaming string
  | GenerateKaraokeVideo string "LyricLine list" string
  | CreateLyricVideo "LyricLine list" nat string
  | AcquireAudioFile string string

text \<open>
  What a run does to the world, in the order it does it: the SQL statements it runs,
  the writes to the module-level job registries, the calls to collaborators, and
  what it prints with \<^verbatim>\<open>console.error\<close>.
\<close>

datatype event =
    SqlUpdateStatus string song_status "int option"
  | SqlUpdatePaths string path_columns
  | SqlTouchCache string nat
  | SqlDeleteCache string
  | SqlInsertCache cache_row
  | JobsSet string job
  | JobsDelete string
  | AudioJobsSet string job
  | AudioJobsDelete string
  | Invoke call
  | ConsoleError string string

text \<open>
  The state: the three tables, the two registries (\<^verbatim>\<open>processingJobs\<close> of
  autonomousProcessor.ts and of jobProcessor.ts), and the events so far.  Table
  \<^verbatim>\<open>users\<close> has \<^verbatim>\<open>id\<close> as primary key and is a map from it; the other tables
  are lists of rows in rowid order.
\<close>

record state =
  songs :: "song_row list"
  users :: "string \<rightharpoonup> user_row"
  processed_cache :: "cache_row list"
  processingJobs :: "string \<rightharpoonup> job"
  audioJobs :: "string \<rightharpoonup> job"
  trace :: "event list"

definition emit :: "event \<Rightarrow> state \<Rightarrow> state" where
  "emit e s = s\<lparr>trace := trace s @ [e]\<rparr>"

section \<open>KaraokeDB (database.ts)\<close>

definition set_status :: "song_status \<Rightarrow> int option \<Rightarrow> song_row \<Rightarrow> song_row" where
  "set_status st progress r =
     (case progress of
        Some p \<Rightarrow> r\<lparr>status := st, processing_progress := p\<rparr>
      | None \<Rightarrow> r\<lparr>status := st\<rparr>)"

definition updateSongStatus :: "string \<Rightarrow> song_status \<Rightarrow> int option \<Rightarrow> state \<Rightarrow> state" where
  "updateSongStatus i st progress s =
     emit (SqlUpdateStatus i st progress)
       (s\<lparr>songs := map (\<lambda>r. if song_id r = i then set_status st progress r else r) (songs s)\<rparr>)"

definition set_paths :: "path_columns \<Rightarrow> song_row \<Rightarrow> song_row" where
  "set_paths p r =
     r\<lparr>original_audio_path :=
          (if truthy (original_audio_path p) then original_audio_path p else original_audio_path r),
        instrumental_path :=
          (if truthy (instrumental_path p) then instrumental_path p else instrumental_path r),
        lyrics_path := (if truthy (lyrics_path p) then lyrics_path p else lyrics_path r),
        video_path := (if truthy (video_path p) then video_path p else video_path r)\<rparr>"

definition updateSongPaths :: "string \<Rightarrow> path_columns \<Rightarrow> state \<Rightarrow> state" where
  "updateSongPaths i p s =
     (if truthy (original_audio_path p) \<or> truthy (instrumental_path p)
         \<or> truthy (lyrics_path p) \<or> truthy (video_path p)
      then emit (SqlUpdatePaths i p)
             (s\<lparr>songs := map (\<lambda>r. if song_id r = i then set_paths p r else r) (songs s)\<rparr>)
      else s)"

text \<open>
  The three queries select from \<^verbatim>\<open>songs s JOIN users u ON s.user_id = u.id\<close>: a
  song whose user row is missing is not seen by any of them.  The rows that come back
  are given as the \<^verbatim>\<open>songs\<close> rows; the \<^verbatim>\<open>QueuedSong\<close> objects are built from
  them field by field.  \<^verbatim>\<open>ORDER BY s.requested_at ASC\<close> is a sort by
  \<open>requested_at\<close> in which rows with equal keys keep their table order (SQL leaves
  their order open).
\<close>

definition joined :: "state \<Rightarrow> song_row list" where
  "joined s = filter (\<lambda>r. users s (user_id r) \<noteq> None) (songs s)"

definition getQueue :: "state \<Rightarrow> song_row list" where
  "getQueue s =
     sort_key requested_at
       (filter (\<lambda>r. status r \<in> {Queued, Processing, Ready, Playing}) (joined s))"

definition getCurrentSong :: "state \<Rightarrow> song_row option" where
  "getCurrentSong s = find (\<lambda>r. status r = Playing) (joined s)"

definition getSong :: "string \<Rightarrow> state \<Rightarrow> song_row option" where
  "getSong i s = find (\<lambda>r. song_id r = i) (joined s)"

section \<open>CacheManager\<close>

definition updateLastAccessed :: "nat \<Rightarrow> string \<Rightarrow> state \<Rightarrow> state" where
  "updateLastAccessed now k s =
     emit (SqlTouchCache k now)
       (s\<lparr>processed_cache :=
            map (\<lambda>r. if cache_key r = k then r\<lparr>last_accessed := now\<rparr> else r) (processed_cache s)\<rparr>)"

definition removeFromCache :: "string \<Rightarrow> state \<Rightarrow> state" where
  "removeFromCache k s =
     emit (SqlDeleteCache k)
       (s\<lparr>processed_cache := filter (\<lambda>r. cache_key r \<noteq> k) (processed_cache s)\<rparr>)"

definition verified :: "filesystem \<Rightarrow> string option \<Rightarrow> string option" where
  "verified fs p = (if truthy p \<and> existsSync fs (the p) then p else None)"

text \<open>
  \<^verbatim>\<open>checkCache\<close> has no \<^verbatim>\<open>await\<close> in its body: it runs in one piece.  \<open>fs\<close> is
  the file system and \<open>now\<close> is \<^verbatim>\<open>CURRENT_TIMESTAMP\<close> at the call.
\<close>

definition checkCache ::
  "filesystem \<Rightarrow> nat \<Rightarrow> string \<Rightarrow> string \<Rightarrow> string \<Rightarrow> state \<Rightarrow> ProcessedSong option \<times> state" where
  "checkCache fs now ttl art q s =
     (let k = generateCacheKey ttl art q
      in case find (\<lambda>r. cache_key r = k) (processed_cache s) of
           None \<Rightarrow> (None, s)
         | Some row \<Rightarrow>
             (let s1 = updateLastAccessed now k s;
                  fl = \<lparr>original = verified fs (c_original_audio_path row),
                        instrumental = verified fs (c_instrumental_path row),
                        lyrics = verified fs (c_lyrics_path row),
                        video = verified fs (c_video_path row)\<rparr>
              in if \<not> truthy (instrumental fl) \<or> \<not> truthy (video fl)
                 then (None, removeFromCache k s1)
                 else (Some \<lparr>cacheKey = k, files = fl,
                              metadata = \<lparr>md_title = title row, md_artist = artist row,
                                           md_quality = processing_quality row,
                                           md_youtubeVideoId = youtube_video_id row\<rparr>\<rparr>,
                       s1)))"

definition orNull :: "string option \<Rightarrow> string option" where
  "orNull v = (if truthy v then v else None)"

definition totalSize :: "filesystem \<Rightarrow> files \<Rightarrow> nat" where
  "totalSize fs fl =
     sum_list (map (\<lambda>p. if truthy p then (case fs (the p) of Some n \<Rightarrow> n | None \<Rightarrow> 0) else 0)
                 [original fl, instrumental fl, lyrics fl, video fl])"

definition addToCache ::
  "filesystem \<Rightarrow> nat \<Rightarrow> string \<Rightarrow> string \<Rightarrow> string \<Rightarrow> files \<Rightarrow> string option \<Rightarrow> state
     \<Rightarrow> string \<times> state" where
  "addToCache fs now ttl art q fl ytid s =
     (let k = generateCacheKey ttl art q;
          row = \<lparr>cache_key = k, title = ttl, artist = art,
                 c_original_audio_path = orNull (original fl),
                 c_instrumental_path = orNull (instrumental fl),
                 c_lyrics_path = orNull (lyrics fl),
                 c_video_path = orNull (video fl),
                 youtube_video_id = orNull ytid,
                 processing_quality = q,
                 created_at = now, last_accessed = now,
                 file_size = totalSize fs fl\<rparr>
      in (k, emit (SqlInsertCache row)
               (s\<lparr>processed_cache :=
                    filter (\<lambda>r. cache_key r \<noteq> k) (processed_cache s) @ [row]\<rparr>)))"


section \<open>The queue routes\<close>

datatype response = Ok200 "string option" | BadRequest400 | NotFound404

text \<open>\<^verbatim>\<open>POST /api/queue/[songId]/start\<close>.\<close>

definition startSong :: "string \<Rightarrow> state \<Rightarrow> response \<times> state" where
  "startSong i s =
     (if i = [] then (BadRequest400, s)
      else case getSong i s of
             None \<Rightarrow> (NotFound404, s)
           | Some song \<Rightarrow>
               if status song \<noteq> Ready then (BadRequest400, s)
               else
                 (let s1 = (case getCurrentSong s of
                              Some currentSong \<Rightarrow> updateSongStatus (song_id currentSong) Completed None s
                            | None \<Rightarrow> s)
                  in (Ok200 None, updateSongStatus i Playing None s1)))"

text \<open>The completion route (the second \<^verbatim>\<open>POST\<close> handler of queue/route.ts).\<close>

definition completeSong :: "string \<Rightarrow> state \<Rightarrow> response \<times> state" where
  "completeSong i s =
     (if i = [] then (BadRequest400, s)
      else
        (let s1 = updateSongStatus i Completed None s
         in case find (\<lambda>song. status song = Ready) (getQueue s1) of
              Some nextSong \<Rightarrow>
                (Ok200 (orNull (Some (song_id nextSong))),
                 updateSongStatus (song_id nextSong) Playing None s1)
            | None \<Rightarrow> (Ok200 None, s1)))"

section \<open>What one run sees of its collaborators\<close>

text \<open>
  Progress values handed to an \<^verbatim>\<open>onProgress\<close> callback are rationals, and
  \<^verbatim>\<open>Math.round(progress * c)\<close> is computed exactly (\<open>\<lfloor>x + 1/2\<rfloor>\<close>).
\<close>

definition js_round :: "rat \<Rightarrow> int" where
  "js_round x = \<lfloor>x + 1 / 2\<rfloor>"

text \<open>
  \<^verbatim>\<open>TorrentClient.downloadAudio\<close> raced against the timer of
  \<^verbatim>\<open>maxTorrentWaitTime\<close>: the download resolves or rejects first (after the listed
  progress callbacks), or the timer wins.  In the last case nothing stops the download:
  its one-second interval goes on calling the callback while the run awaits later
  collaborators.
\<close>

datatype torrent_download =
    Resolved "rat list" "string option"
  | Rejected "rat list" string
  | TimedOut "rat list"

text \<open>
  A progress callback while \<^verbatim>\<open>separateVocals\<close> is awaited: its own, or one of a
  download left running.
\<close>

datatype tick = Own rat | Late rat

record env =
  now :: nat
  fs_lookup :: filesystem
  findBestMatch :: "string + string option"
  downloadAudio :: torrent_download
  checkUploadsDirectory :: "string option"
  late_youtube :: "rat list"
  getBestKaraokeVideo :: "string + (string \<times> string) option"
  separateVocals :: "tick list \<times> (string + string)"
  late_lyrics :: "rat list"
  fetchLyrics :: "string option"
  smartSynchronize :: "string + LyricLine list"
  late_compose :: "rat list"
  fs_compose :: filesystem
  replaceAudio :: "string + unit"
  optimizeForStreaming :: "string + string"
  smartSynchronize2 :: "string + LyricLine list"
  generateKaraokeVideo :: "string + unit"
  createLyricVideo :: "string + unit"
  fs_cache :: filesystem
  acquireAudioFile :: "string option"

text \<open>The download was started and left running by the timer.\<close>

definition abandoned :: "env \<Rightarrow> bool" where
  "abandoned e =
     (case findBestMatch e of
        Inr (Some magnet) \<Rightarrow> (case downloadAudio e of TimedOut ps \<Rightarrow> True | _ \<Rightarrow> False)
      | _ \<Rightarrow> False)"

section \<open>processKaraokeSong (autonomousProcessor.ts)\<close>

definition dirname :: "string \<Rightarrow> string" where
  "dirname p =
     (if CHR ''/'' \<notin> set p then ''.''
      else (let d = rev (drop 1 (dropWhile (\<lambda>c. c \<noteq> CHR ''/'') (rev p)))
            in if d = [] then ''/'' else d))"

definition path_join :: "string \<Rightarrow> string \<Rightarrow> string" where
  "path_join d name =
     (if d = ''.'' then name else if last d = CHR ''/'' then d @ name else d @ ''/'' @ name)"

definition job_defaults :: "options \<Rightarrow> options" where
  "job_defaults opts =
     opts\<lparr>useCache := Some (case useCache opts of None \<Rightarrow> True | Some b \<Rightarrow> b),
          maxTorrentWaitTime :=
            Some (case maxTorrentWaitTime opts of None \<Rightarrow> 5 * 60 * 1000 | Some t \<Rightarrow> t),
          maxYouTubeWaitTime :=
            Some (case maxYouTubeWaitTime opts of None \<Rightarrow> 2 * 60 * 1000 | Some t \<Rightarrow> t)\<rparr>"

text \<open>The callback handed to \<^verbatim>\<open>downloadAudio\<close> (lines 83 to 86).\<close>

definition torrentProgress :: "string \<Rightarrow> rat \<Rightarrow> state \<Rightarrow> state" where
  "torrentProgress i progress s =
     updateSongStatus i Processing (Some (10 + js_round (progress * (15 / 100)))) s"

text \<open>The callback handed to \<^verbatim>\<open>separateVocals\<close> (lines 142 to 145).\<close>

definition separationProgress :: "string \<Rightarrow> rat \<Rightarrow> state \<Rightarrow> state" where
  "separationProgress i progress s =
     updateSongStatus i Processing (Some (45 + js_round (progress * (25 / 100)))) s"

definition lateTicks :: "env \<Rightarrow> string \<Rightarrow> rat list \<Rightarrow> state \<Rightarrow> state" where
  "lateTicks e i ps s = (if abandoned e then fold (torrentProgress i) ps s else s)"

definition separationTick :: "env \<Rightarrow> string \<Rightarrow> tick \<Rightarrow> state \<Rightarrow> state" where
  "separationTick e i t s =
     (case t of
        Own p \<Rightarrow> separationProgress i p s
      | Late p \<Rightarrow> lateTicks e i [p] s)"

text \<open>STEP 2 (lines 68 to 109): the torrent, then the uploads directory.\<close>

definition acquire :: "env \<Rightarrow> string \<Rightarrow> string \<Rightarrow> string \<Rightarrow> state \<Rightarrow> (string + string) \<times> state" where
  "acquire e i ttl art s =
     (let s1 = emit (Invoke (FindBestMatch ttl art)) (updateSongStatus i Processing (Some 10) s)
      in case findBestMatch e of
           Inl err \<Rightarrow> (Inl err, s1)
         | Inr torrentResult \<Rightarrow>
             (let (audioPath1, s2) =
                    (case torrentResult of
                       None \<Rightarrow> (None, s1)
                     | Some magnet \<Rightarrow>
                         (let s' = emit (Invoke (DownloadAudio magnet (art @ '' - '' @ ttl))) s1
                          in case downloadAudio e of
                               Resolved ps r \<Rightarrow> (r, fold (torrentProgress i) ps s')
                             | Rejected ps err \<Rightarrow> (None, fold (torrentProgress i) ps s')
                             | TimedOut ps \<Rightarrow> (None, fold (torrentProgress i) ps s')));
                  (audioPath2, s3) =
                    (if \<not> truthy audioPath1
                     then (checkUploadsDirectory e, emit (Invoke (CheckUploadsDirectory ttl art)) s2)
                     else (audioPath1, s2))
              in if \<not> truthy audioPath2
                 then (Inl (''Could not acquire audio for: '' @ art @ '' - '' @ ttl), s3)
                 else (Inr (the audioPath2),
                       updateSongPaths i
                         \<lparr>original_audio_path = audioPath2, instrumental_path = None,
                          lyrics_path = None, video_path = None\<rparr> s3)))"

text \<open>STEP 3 (lines 111 to 133); a failure or a timeout is only logged.\<close>

definition youtube ::
  "env \<Rightarrow> string \<Rightarrow> string \<Rightarrow> string \<Rightarrow> state \<Rightarrow> (string \<times> string) option \<times> state" where
  "youtube e i ttl art s =
     (let s1 = emit (Invoke (GetBestKaraokeVideo ttl art)) (updateSongStatus i Processing (Some 30) s);
          s2 = lateTicks e i (late_youtube e) s1
      in case getBestKaraokeVideo e of
           Inl err \<Rightarrow> (None, s2)
         | Inr youtubeResult \<Rightarrow> (youtubeResult, s2))"

text \<open>STEP 4 (lines 135 to 149).\<close>

definition separate ::
  "env \<Rightarrow> string \<Rightarrow> options \<Rightarrow> string \<Rightarrow> state \<Rightarrow> (string + string) \<times> state" where
  "separate e i opts audioPath s =
     (let s1 = emit (Invoke (SeparateVocals audioPath opts))
                 (updateSongStatus i Processing (Some 45) s);
          s2 = fold (separationTick e i) (fst (separateVocals e)) s1
      in case snd (separateVocals e) of
           Inl err \<Rightarrow> (Inl err, s2)
         | Inr instr \<Rightarrow>
             (Inr instr,
              updateSongPaths i
                \<lparr>original_audio_path = None, instrumental_path = Some instr,
                 lyrics_path = None, video_path = None\<rparr> s2))"

text \<open>
  STEP 5 (lines 151 to 168).  \<^verbatim>\<open>LyricsProcessor.fetchLyrics\<close> catches the errors of
  all its sources and returns \<^verbatim>\<open>null\<close>; \<^verbatim>\<open>smartSynchronize\<close> can reject.
\<close>

definition syncLyrics ::
  "env \<Rightarrow> string \<Rightarrow> string \<Rightarrow> string \<Rightarrow> string \<Rightarrow> state \<Rightarrow> (string + string option) \<times> state" where
  "syncLyrics e i ttl art instr s =
     (let s1 = emit (Invoke (FetchLyrics ttl art)) (updateSongStatus i Processing (Some 75) s);
          s2 = lateTicks e i (late_lyrics e) s1
      in if truthy (fetchLyrics e)
         then
           (let s3 = emit (Invoke (SmartSynchronize (the (fetchLyrics e)) instr)) s2
            in case smartSynchronize e of
                 Inl err \<Rightarrow> (Inl err, s3)
               | Inr syncedLyrics \<Rightarrow>
                   (let lyricsPath = path_join (dirname instr) ''lyrics.lrc''
                    in (Inr (Some lyricsPath),
                        updateSongPaths i
                          \<lparr>original_audio_path = None, instrumental_path = None,
                           lyrics_path = Some lyricsPath, video_path = None\<rparr>
                          (emit (Invoke (WriteFile lyricsPath)) s3))))
         else (Inr None, s2))"

text \<open>STEP 6 (lines 170 to 214).\<close>

definition compose ::
  "env \<Rightarrow> string \<Rightarrow> string \<Rightarrow> string option \<Rightarrow> string option \<Rightarrow> state \<Rightarrow> (string + string) \<times> state" where
  "compose e i instr karaokeVideoPath lyricsPath s =
     (let s1 = lateTicks e i (late_compose e) (updateSongStatus i Processing (Some 85) s)
      in if truthy karaokeVideoPath \<and> existsSync (fs_compose e) (the karaokeVideoPath)
         then
           (let finalVideoPath = path_join (dirname instr) ''final_karaoke.mp4'';
                s2 = emit (Invoke (ReplaceAudio (the karaokeVideoPath) instr finalVideoPath)) s1
            in case replaceAudio e of
                 Inl err \<Rightarrow> (Inl err, s2)
               | Inr u \<Rightarrow>
                   (let s3 = emit (Invoke (OptimizeForStreaming finalVideoPath)) s2
                    in case optimizeForStreaming e of
                         Inl err \<Rightarrow> (Inl err, s3)
                       | Inr optimizedPath \<Rightarrow>
                           if optimizedPath \<noteq> finalVideoPath
                           then (Inr optimizedPath, emit (Invoke (Unlink finalVideoPath)) s3)
                           else (Inr finalVideoPath, s3)))
         else
           (let finalVideoPath = path_join (dirname instr) ''generated_karaoke.mp4''
            in if truthy lyricsPath \<and> truthy (fetchLyrics e)
               then
                 (let s2 = emit (Invoke (SmartSynchronize (the (fetchLyrics e)) instr)) s1
                  in case smartSynchronize2 e of
                       Inl err \<Rightarrow> (Inl err, s2)
                     | Inr syncedLyrics \<Rightarrow>
                         (let s3 = emit (Invoke (GenerateKaraokeVideo instr syncedLyrics
                                                   finalVideoPath)) s2
                          in case generateKaraokeVideo e of
                               Inl err \<Rightarrow> (Inl err, s3)
                             | Inr u \<Rightarrow> (Inr finalVideoPath, s3)))
               else
                 (let s2 = emit (Invoke (CreateLyricVideo [] 300000 finalVideoPath)) s1
                  in case createLyricVideo e of
                       Inl err \<Rightarrow> (Inl err, s2)
                     | Inr u \<Rightarrow> (Inr finalVideoPath, s2))))"

text \<open>Lines 68 to 242: the run after a cache miss (or a hit that is not used).\<close>

definition pipeline ::
  "env \<Rightarrow> string \<Rightarrow> options \<Rightarrow> string \<Rightarrow> string \<Rightarrow> state \<Rightarrow> (string + unit) \<times> state" where
  "pipeline e i opts ttl art s =
     (case acquire e i ttl art s of
        (Inl err, s1) \<Rightarrow> (Inl err, s1)
      | (Inr audioPath, s1) \<Rightarrow>
          (let (youtubeResult, s2) = youtube e i ttl art s1;
               karaokeVideoPath = map_option fst youtubeResult;
               youtubeVideoId = map_option snd youtubeResult
           in case separate e i opts audioPath s2 of
                (Inl err, s3) \<Rightarrow> (Inl err, s3)
              | (Inr instr, s3) \<Rightarrow>
                  (case syncLyrics e i ttl art instr s3 of
                     (Inl err, s4) \<Rightarrow> (Inl err, s4)
                   | (Inr lyricsPath, s4) \<Rightarrow>
                       (case compose e i instr karaokeVideoPath lyricsPath s4 of
                          (Inl err, s5) \<Rightarrow> (Inl err, s5)
                        | (Inr finalVideoPath, s5) \<Rightarrow>
                            (let s6 = updateSongPaths i
                                        \<lparr>original_audio_path = None, instrumental_path = None,
                                         lyrics_path = None, video_path = Some finalVideoPath\<rparr> s5;
                                 s7 = snd (addToCache (fs_cache e) (now e) ttl art (quality opts)
                                             \<lparr>original = Some audioPath, instrumental = Some instr,
                                              lyrics = orNull lyricsPath,
                                              video = Some finalVideoPath\<rparr>
                                             (orNull youtubeVideoId) s6);
                                 s8 = updateSongStatus i Ready (Some 100) s7
                             in (Inr (),
                                 if truthy karaokeVideoPath \<and> karaokeVideoPath \<noteq> Some finalVideoPath
                                 then emit (Invoke (Unlink (the karaokeVideoPath))) s8
                                 else s8))))))"

text \<open>Lines 38 to 242: the body of the \<^verbatim>\<open>try\<close>.\<close>

definition tryBody :: "env \<Rightarrow> string \<Rightarrow> options \<Rightarrow> state \<Rightarrow> (string + unit) \<times> state" where
  "tryBody e i opts s =
     (case getSong i s of
        None \<Rightarrow> (Inl ''Song not found'', s)
      | Some song \<Rightarrow>
          (let s1 = updateSongStatus i Processing (Some 5) s;
               (cached, s2) = checkCache (fs_lookup e) (now e) (song_title song) (song_artist song)
                                (quality opts) s1
           in if cached \<noteq> None \<and> useCache opts = Some True
              then
                (let fl = files (the cached);
                     s3 = updateSongPaths i
                            \<lparr>original_audio_path = original fl, instrumental_path = instrumental fl,
                             lyrics_path = lyrics fl, video_path = video fl\<rparr> s2
                 in (Inr (), updateSongStatus i Ready (Some 100) s3))
              else pipeline e i opts (song_title song) (song_artist song) s2))"

text \<open>Lines 25 to 35: the job is put into the registry, whatever the registry holds.\<close>

definition registerJob :: "string \<Rightarrow> options \<Rightarrow> state \<Rightarrow> state" where
  "registerJob i opts s =
     (let jb = \<lparr>songId = i, job_options = job_defaults opts\<rparr>
      in emit (JobsSet i jb) (s\<lparr>processingJobs := (processingJobs s)(i \<mapsto> jb)\<rparr>))"

text \<open>Lines 244 to 246: the \<^verbatim>\<open>catch\<close>; the error goes to the console only.\<close>

definition catchFailed :: "string \<Rightarrow> (string + unit) \<times> state \<Rightarrow> state" where
  "catchFailed i rs =
     (case fst rs of
        Inl err \<Rightarrow> updateSongStatus i Failed (Some 0) (emit (ConsoleError i err) (snd rs))
      | Inr u \<Rightarrow> snd rs)"

text \<open>Lines 247 to 249: the \<^verbatim>\<open>finally\<close>.\<close>

definition releaseJob :: "string \<Rightarrow> state \<Rightarrow> state" where
  "releaseJob i s = emit (JobsDelete i) (s\<lparr>processingJobs := (processingJobs s)(i := None)\<rparr>)"

text \<open>
  Lines 24 to 250.  The function returns a promise of \<^verbatim>\<open>undefined\<close>; the model
  returns the state in which the promise settles.
\<close>

definition processKaraokeSong :: "env \<Rightarrow> string \<Rightarrow> options \<Rightarrow> state \<Rightarrow> state" where
  "processKaraokeSong e i opts s =
     releaseJob i (catchFailed i (tryBody e i opts (registerJob i opts s)))"

section \<open>processAudio (jobProcessor.ts)\<close>

text \<open>The callback handed to \<^verbatim>\<open>separateVocals\<close> (lines 50 to 53).\<close>

definition audioProgress :: "string \<Rightarrow> tick \<Rightarrow> state \<Rightarrow> state" where
  "audioProgress i t s =
     (case t of
        Own p \<Rightarrow> updateSongStatus i Processing (Some (30 + js_round (p * (40 / 100)))) s
      | Late p \<Rightarrow> s)"

text \<open>Lines 59 to 88: lyrics, and the video that is made only when there are lyrics.\<close>

definition audioLyrics ::
  "env \<Rightarrow> string \<Rightarrow> options \<Rightarrow> string \<Rightarrow> string \<Rightarrow> string \<Rightarrow> state \<Rightarrow> (string + unit) \<times> state" where
  "audioLyrics e i opts ttl art instr s =
     (let s1 = emit (Invoke (FetchLyrics ttl art)) (updateSongStatus i Processing (Some 75) s)
      in if truthy (fetchLyrics e)
         then
           (let s2 = emit (Invoke (SmartSynchronize (the (fetchLyrics e)) instr)) s1
            in case smartSynchronize e of
                 Inl err \<Rightarrow> (Inl err, s2)
               | Inr syncedLyrics \<Rightarrow>
                   (let lyricsPath = path_join (dirname instr) ''lyrics.lrc'';
                        s3 = updateSongPaths i
                               \<lparr>original_audio_path = None, instrumental_path = None,
                                lyrics_path = Some lyricsPath, video_path = None\<rparr>
                               (emit (Invoke (WriteFile lyricsPath)) s2)
                    in if outputFormat opts \<noteq> ''audio-only''
                       then
                         (let videoPath = path_join (dirname instr) ''karaoke.mp4'';
                              s4 = emit (Invoke (GenerateKaraokeVideo instr syncedLyrics videoPath))
                                     (updateSongStatus i Processing (Some 85) s3)
                          in case generateKaraokeVideo e of
                               Inl err \<Rightarrow> (Inl err, s4)
                             | Inr u \<Rightarrow>
                                 (Inr (),
                                  updateSongPaths i
                                    \<lparr>original_audio_path = None, instrumental_path = None,
                                     lyrics_path = None, video_path = Some videoPath\<rparr> s4))
                       else (Inr (), s3)))
         else (Inr (), s1))"

text \<open>Lines 21 to 92: the body of the \<^verbatim>\<open>try\<close>.\<close>

definition audioBody :: "env \<Rightarrow> string \<Rightarrow> options \<Rightarrow> state \<Rightarrow> (string + unit) \<times> state" where
  "audioBody e i opts s =
     (let s1 = updateSongStatus i Processing (Some 0) s
      in case getSong i s1 of
           None \<Rightarrow> (Inl ''Song not found'', s1)
         | Some song \<Rightarrow>
             (let s2 = emit (Invoke (AcquireAudioFile (song_title song) (song_artist song)))
                         (updateSongStatus i Processing (Some 10) s1)
              in if \<not> truthy (acquireAudioFile e)
                 then (Inl ''Could not find audio file'', s2)
                 else
                   (let audioPath = the (acquireAudioFile e);
                        s3 = updateSongPaths i
                               \<lparr>original_audio_path = Some audioPath, instrumental_path = None,
                                lyrics_path = None, video_path = None\<rparr> s2;
                        s4 = emit (Invoke (SeparateVocals audioPath opts))
                               (updateSongStatus i Processing (Some 30) s3);
                        s5 = fold (audioProgress i) (fst (separateVocals e)) s4
                    in case snd (separateVocals e) of
                         Inl err \<Rightarrow> (Inl err, s5)
                       | Inr instr \<Rightarrow>
                           (let s6 = updateSongPaths i
                                       \<lparr>original_audio_path = None, instrumental_path = Some instr,
                                        lyrics_path = None, video_path = None\<rparr> s5
                            in case audioLyrics e i opts (song_title song) (song_artist song) instr s6 of
                                 (Inl err, s7) \<Rightarrow> (Inl err, s7)
                               | (Inr u, s7) \<Rightarrow> (Inr (), updateSongStatus i Ready (Some 100) s7)))))"

definition registerAudioJob :: "string \<Rightarrow> options \<Rightarrow> state \<Rightarrow> state" where
  "registerAudioJob i opts s =
     (let jb = \<lparr>songId = i, job_options = opts\<rparr>
      in emit (AudioJobsSet i jb) (s\<lparr>audioJobs := (audioJobs s)(i \<mapsto> jb)\<rparr>))"

definition releaseAudioJob :: "string \<Rightarrow> state \<Rightarrow> state" where
  "releaseAudioJob i s = emit (AudioJobsDelete i) (s\<lparr>audioJobs := (audioJobs s)(i := None)\<rparr>)"

definition processAudio :: "env \<Rightarrow> string \<Rightarrow> options \<Rightarrow> state \<Rightarrow> state" where
  "processAudio e i opts s =
     releaseAudioJob i (catchFailed i (audioBody e i opts (registerAudioJob i opts s)))"

section \<open>Notions the properties are stated with\<close>



text \<open>Both mandatory artifact files of a cache row are named and exist.\<close>

definition mandatory_present :: "filesystem \<Rightarrow> cache_row \<Rightarrow> bool" where
  "mandatory_present fs row =
     ((case c_instrumental_path row of None \<Rightarrow> False | Some p \<Rightarrow> p \<noteq> [] \<and> fs p \<noteq> None)
      \<and> (case c_video_path row of None \<Rightarrow> False | Some p \<Rightarrow> p \<noteq> [] \<and> fs p \<noteq> None))"

definition has_key :: "string \<Rightarrow> state \<Rightarrow> bool" where
  "has_key k s = list_ex (\<lambda>r. cache_key r = k) (processed_cache s)"

definition hit_of :: "filesystem \<Rightarrow> string \<Rightarrow> cache_row \<Rightarrow> ProcessedSong" where
  "hit_of fs k row =
     \<lparr>cacheKey = k,
      files = \<lparr>original = verified fs (c_original_audio_path row),
               instrumental = verified fs (c_instrumental_path row),
               lyrics = verified fs (c_lyrics_path row),
               video = verified fs (c_video_path row)\<rparr>,
      metadata = \<lparr>md_title = title row, md_artist = artist row,
                  md_quality = processing_quality row,
                  md_youtubeVideoId = youtube_video_id row\<rparr>\<rparr>"

definition touch :: "nat \<Rightarrow> string \<Rightarrow> cache_row \<Rightarrow> cache_row" where
  "touch t k r = (if cache_key r = k then r\<lparr>last_accessed := t\<rparr> else r)"

definition other_rows :: "string \<Rightarrow> state \<Rightarrow> cache_row list" where
  "other_rows k s = filter (\<lambda>r. cache_key r \<noteq> k) (processed_cache s)"

definition playing :: "state \<Rightarrow> song_row list" where
  "playing s = filter (\<lambda>r. status r = Playing) (songs s)"

section \<open>Example states\<close>

definition mkSong :: "string \<Rightarrow> song_status \<Rightarrow> int \<Rightarrow> nat \<Rightarrow> song_row" where
  "mkSong i st p t =
     \<lparr>original_audio_path = None, instrumental_path = None, lyrics_path = None,
      video_path = None, song_id = i, user_id = ''u1'', song_title = ''Bohemian Rhapsody'',
      song_artist = ''Queen'', status = st, processing_progress = p, requested_at = t\<rparr>"

definition mkState :: "song_row list \<Rightarrow> cache_row list \<Rightarrow> state" where
  "mkState rows cache =
     \<lparr>songs = rows,
      users = [''u1'' \<mapsto> \<lparr>user_name = ''Ann'', user_color = ''bg-red-500''\<rparr>],
      processed_cache = cache, processingJobs = Map.empty, audioJobs = Map.empty, trace = []\<rparr>"

text \<open>
  A cache row for (Bohemian Rhapsody, Queen, high), a file system that holds its files
  and one where the instrumental is gone.
\<close>

definition cachedRow :: cache_row where
  "cachedRow =
     \<lparr>cache_key = generateCacheKey ''Bohemian Rhapsody'' ''Queen'' ''high'',
      title = ''Bohemian Rhapsody'', artist = ''Queen'',
      c_original_audio_path = Some ''/cache/original.mp3'',
      c_instrumental_path = Some ''/cache/instrumental.wav'',
      c_lyrics_path = None,
      c_video_path = Some ''/cache/karaoke.mp4'',
      youtube_video_id = None, processing_quality = ''high'',
      created_at = 3, last_accessed = 3, file_size = 35\<rparr>"

definition cachedState :: state where
  "cachedState = mkState [mkSong ''s1'' Queued 0 1] [cachedRow]"

definition fsFull :: filesystem where
  "fsFull = [''/cache/original.mp3'' \<mapsto> 5, ''/cache/instrumental.wav'' \<mapsto> 10,
             ''/cache/karaoke.mp4'' \<mapsto> 20]"

definition fsStale :: filesystem where
  "fsStale = [''/cache/original.mp3'' \<mapsto> 5, ''/cache/karaoke.mp4'' \<mapsto> 20]"

definition party :: state where
  "party =
     mkState [mkSong ''A'' Ready 100 1, mkSong ''B'' Ready 100 2, mkSong ''C'' Queued 0 3] []"

definition trio :: state where
  "trio =
     mkState [mkSong ''A'' Ready 100 1, mkSong ''B'' Ready 100 2, mkSong ''C'' Ready 100 3] []"

definition afterFailure :: state where
  "afterFailure = mkState [mkSong ''B'' Queued 0 2, mkSong ''A'' Failed 0 1] []"

section \<open>Notions for the runs\<close>

text \<open>The events a run added to the trace.\<close>

definition newEvents :: "state \<Rightarrow> state \<Rightarrow> event list" where
  "newEvents s s' = drop (length (trace s)) (trace s')"

text \<open>
  The progress values written to song \<open>i\<close> with a status other than \<open>failed\<close>.
  (A run writes \<open>failed\<close> once, as its last status, with progress \<open>0\<close>.)
\<close>

fun progressWrites :: "string \<Rightarrow> event list \<Rightarrow> int list" where
  "progressWrites i [] = []"
| "progressWrites i (SqlUpdateStatus j st (Some p) # evs) =
     (if j = i \<and> st \<noteq> Failed then p # progressWrites i evs else progressWrites i evs)"
| "progressWrites i (ev # evs) = progressWrites i evs"

definition stepwise :: "int \<Rightarrow> int \<Rightarrow> int list \<Rightarrow> bool" where
  "stepwise lo hi xs = (sorted xs \<and> list_all (\<lambda>x. lo \<le> x \<and> x \<le> hi) xs)"

definition torrentTicks :: "env \<Rightarrow> rat list" where
  "torrentTicks e =
     (case downloadAudio e of Resolved ps r \<Rightarrow> ps | Rejected ps err \<Rightarrow> ps | TimedOut ps \<Rightarrow> ps)"

fun ownTicks :: "tick list \<Rightarrow> rat list" where
  "ownTicks [] = []"
| "ownTicks (Own p # ts) = p # ownTicks ts"
| "ownTicks (Late p # ts) = ownTicks ts"

fun lateOnes :: "tick list \<Rightarrow> rat list" where
  "lateOnes [] = []"
| "lateOnes (Own p # ts) = lateOnes ts"
| "lateOnes (Late p # ts) = p # lateOnes ts"

text \<open>A callback reports non-decreasing values between \<open>0\<close> and \<open>100\<close>.\<close>

definition ticksOK :: "rat list \<Rightarrow> bool" where
  "ticksOK ps = (sorted ps \<and> list_all (\<lambda>p. 0 \<le> p \<and> p \<le> 100) ps)"

text \<open>
  No callback of a download that the timer left running arrives while the run awaits a
  later collaborator.
\<close>

definition noLateTicks :: "env \<Rightarrow> bool" where
  "noLateTicks e =
     (\<not> abandoned e
      \<or> (late_youtube e = [] \<and> late_lyrics e = [] \<and> late_compose e = []
          \<and> lateOnes (fst (separateVocals e)) = []))"

text \<open>
  The callbacks of one run behave: each reports non-decreasing values between \<open>0\<close>
  and \<open>100\<close>, and none arrives late.
\<close>

definition steady :: "env \<Rightarrow> bool" where
  "steady e =
     (noLateTicks e \<and> ticksOK (torrentTicks e) \<and> ticksOK (ownTicks (fst (separateVocals e))))"

text \<open>
  From \<open>s\<close> to \<open>s'\<close> the trace only grew, and (when \<open>ok\<close>) the progress values
  written in between are non-decreasing and lie between \<open>lo\<close> and \<open>hi\<close>.
\<close>

definition advances :: "bool \<Rightarrow> string \<Rightarrow> int \<Rightarrow> int \<Rightarrow> state \<Rightarrow> state \<Rightarrow> bool" where
  "advances ok i lo hi s s' =
     (prefix (trace s) (trace s')
      \<and> (ok \<longrightarrow> stepwise lo hi (progressWrites i (newEvents s s'))))"

text \<open>From \<open>s\<close> to \<open>s'\<close> the trace only grew, by events that satisfy \<open>P\<close>.\<close>

definition adds :: "(event \<Rightarrow> bool) \<Rightarrow> state \<Rightarrow> state \<Rightarrow> bool" where
  "adds P s s' = (prefix (trace s) (trace s') \<and> list_all P (newEvents s s'))"

text \<open>
  The events of a run that goes on without lyrics and does not fail: no lyrics are
  synchronized, written or put into a video, no lyrics path is stored in the song or
  in the cache, no status \<open>failed\<close> is written and no error is logged.
\<close>

fun noLyrics :: "event \<Rightarrow> bool" where
  "noLyrics (Invoke (SmartSynchronize l a)) = False"
| "noLyrics (Invoke (GenerateKaraokeVideo a l out)) = False"
| "noLyrics (Invoke (WriteFile p)) = False"
| "noLyrics (SqlUpdatePaths j p) = (lyrics_path p = None)"
| "noLyrics (SqlInsertCache row) = (c_lyrics_path row = None)"
| "noLyrics (SqlUpdateStatus j st p) = (st \<noteq> Failed)"
| "noLyrics (ConsoleError j err) = False"
| "noLyrics ev = True"

fun isInvoke :: "event \<Rightarrow> bool" where
  "isInvoke (Invoke c) = True"
| "isInvoke ev = False"

text \<open>The value of \<^verbatim>\<open>audioPath\<close> after the torrent and the uploads directory.\<close>

definition audioPathOf :: "env \<Rightarrow> string option" where
  "audioPathOf e =
     (case findBestMatch e of
        Inl err \<Rightarrow> None
      | Inr None \<Rightarrow> checkUploadsDirectory e
      | Inr (Some magnet) \<Rightarrow>
          (case downloadAudio e of
             Resolved ps r \<Rightarrow> if truthy r then r else checkUploadsDirectory e
           | Rejected ps err \<Rightarrow> checkUploadsDirectory e
           | TimedOut ps \<Rightarrow> checkUploadsDirectory e))"

text \<open>The value of \<^verbatim>\<open>karaokeVideoPath\<close> after the YouTube lookup.\<close>

definition karaokeVideoOf :: "env \<Rightarrow> string option" where
  "karaokeVideoOf e =
     (case getBestKaraokeVideo e of Inr (Some (p, vid)) \<Rightarrow> Some p | _ \<Rightarrow> None)"

definition baseVideo :: "env \<Rightarrow> bool" where
  "baseVideo e =
     (truthy (karaokeVideoOf e) \<and> existsSync (fs_compose e) (the (karaokeVideoOf e)))"

text \<open>
  Acquisition, separation and the composition of a video without lyrics succeed (the
  YouTube lookup cannot fail a run).
\<close>

definition othersSucceed :: "env \<Rightarrow> bool" where
  "othersSucceed e =
     (truthy (audioPathOf e)
      \<and> (case snd (separateVocals e) of Inl err \<Rightarrow> False | Inr instr \<Rightarrow> True)
      \<and> (if baseVideo e
          then replaceAudio e = Inr ()
               \<and> (case optimizeForStreaming e of Inl err \<Rightarrow> False | Inr p \<Rightarrow> True)
          else createLyricVideo e = Inr ()))"

text \<open>The call that composes the video when there are no lyrics.\<close>

definition composeCall :: "env \<Rightarrow> call" where
  "composeCall e =
     (let instr = (case snd (separateVocals e) of Inl err \<Rightarrow> [] | Inr p \<Rightarrow> p)
      in if baseVideo e
         then ReplaceAudio (the (karaokeVideoOf e)) instr
                (path_join (dirname instr) ''final_karaoke.mp4'')
         else CreateLyricVideo [] 300000 (path_join (dirname instr) ''generated_karaoke.mp4''))"

text \<open>The lookup of line 52 finds a valid entry, and line 53 uses it.\<close>

definition cacheHit :: "env \<Rightarrow> options \<Rightarrow> song_row \<Rightarrow> state \<Rightarrow> ProcessedSong option" where
  "cacheHit e opts song s =
     fst (checkCache (fs_lookup e) (now e) (song_title song) (song_artist song) (quality opts) s)"

definition cacheUsed :: "env \<Rightarrow> options \<Rightarrow> song_row \<Rightarrow> state \<Rightarrow> bool" where
  "cacheUsed e opts song s = (cacheHit e opts song s \<noteq> None \<and> useCache opts = Some True)"

section \<open>Example runs\<close>

definition quietEnv :: env where
  "quietEnv =
     \<lparr>now = 7, fs_lookup = Map.empty, findBestMatch = Inr None, downloadAudio = TimedOut [],
      checkUploadsDirectory = None, late_youtube = [], getBestKaraokeVideo = Inr None,
      separateVocals = ([], Inl ''Demucs failed with exit code 1''), late_lyrics = [],
      fetchLyrics = None, smartSynchronize = Inl ''ffprobe failed'', late_compose = [],
      fs_compose = Map.empty, replaceAudio = Inl ''ffmpeg failed'',
      optimizeForStreaming = Inl ''ffmpeg failed'', smartSynchronize2 = Inl ''ffprobe failed'',
      generateKaraokeVideo = Inl ''ffmpeg failed'', createLyricVideo = Inl ''ffmpeg failed'',
      fs_cache = Map.empty, acquireAudioFile = None\<rparr>"

text \<open>The options the route \<^verbatim>\<open>POST /api/queue/add\<close> passes.\<close>

definition routeOptions :: options where
  "routeOptions =
     \<lparr>quality = ''balanced'', outputFormat = ''wav'', useCache = None,
      maxTorrentWaitTime = None, maxYouTubeWaitTime = None\<rparr>"

definition oneQueued :: state where
  "oneQueued = mkState [mkSong ''s1'' Queued 0 1] []"

text \<open>
  A run in which everything works and no lyrics are found: the torrent is downloaded,
  no karaoke video is found, the video is generated.
\<close>

definition goodEnv :: env where
  "goodEnv =
     quietEnv\<lparr>findBestMatch := Inr (Some ''magnet:?xt=urn:btih:c12fe1''),
              downloadAudio := Resolved [0, 50, 100] (Some ''/downloads/Queen_1a2b3c4d.mp3''),
              separateVocals := ([Own 10, Own 95, Own 100], Inr ''/output/Queen/no_vocals.wav''),
              createLyricVideo := Inr ()\<rparr>"

text \<open>
  A run whose download is left running by the timer: it had reported \<open>0\<close> percent
  before, and reports \<open>1\<close> percent while the run awaits the YouTube lookup.  The
  audio comes from the uploads directory; the separation fails.
\<close>

definition lateEnv :: env where
  "lateEnv =
     quietEnv\<lparr>findBestMatch := Inr (Some ''magnet:?xt=urn:btih:c12fe1''),
              downloadAudio := TimedOut [0],
              checkUploadsDirectory := Some ''/uploads/Queen - Bohemian Rhapsody.mp3'',
              late_youtube := [1]\<rparr>"

text \<open>Two separations that fail for different reasons, after the same acquisition.\<close>

definition demucsEnv :: env where
  "demucsEnv = quietEnv\<lparr>checkUploadsDirectory := Some ''/uploads/Queen - Bohemian Rhapsody.mp3''\<rparr>"

definition spleeterEnv :: env where
  "spleeterEnv =
     demucsEnv\<lparr>separateVocals := ([], Inl ''Spleeter failed with exit code 1'')\<rparr>"

text \<open>A song whose run is under way: both registries hold a job for it.\<close>

definition busy :: state where
  "busy =
     (mkState [mkSong ''s1'' Processing 45 1] [])
       \<lparr>processingJobs := [''s1'' \<mapsto> \<lparr>songId = ''s1'', job_options = job_defaults routeOptions\<rparr>],
        audioJobs := [''s1'' \<mapsto> \<lparr>songId = ''s1'', job_options = routeOptions\<rparr>]\<rparr>"

definition statusAndProgress :: "state \<Rightarrow> (string \<times> song_status \<times> int) list" where
  "statusAndProgress s = map (\<lambda>r. (song_id r, status r, processing_progress r)) (songs s)"

text \<open>Lyrics are found, and synchronizing them fails; everything else works.\<close>

definition syncFailEnv :: env where
  "syncFailEnv = goodEnv\<lparr>fetchLyrics := Some ''Is this the real life?''\<rparr>"

text \<open>The same run when the synchronization works.\<close>

definition syncOkEnv :: env where
  "syncOkEnv =
     syncFailEnv\<lparr>smartSynchronize := Inr [(0, 4000, ''Is this the real life?'')],
                 smartSynchronize2 := Inr [(0, 4000, ''Is this the real life?'')],
                 generateKaraokeVideo := Inr ()\<rparr>"

text \<open>
  The cache holds a valid entry for the song, and the route asks for quality
  \<open>high\<close> without naming \<^verbatim>\<open>useCache\<close>.
\<close>

definition cacheEnv :: env where
  "cacheEnv = quietEnv\<lparr>fs_lookup := fsFull\<rparr>"

definition highOptions :: options where
  "highOptions = routeOptions\<lparr>quality := ''high''\<rparr>"

text \<open>
  The tables as the schema keeps them: song ids are unique (primary key) and every
  song has its user row (foreign key).
\<close>

definition wellFormed :: "state \<Rightarrow> bool" where
  "wellFormed s =
     (distinct (map song_id (songs s)) \<and> list_all (\<lambda>r. users s (user_id r) \<noteq> None) (songs s))"

section \<open>The cache key\<close>













section \<open>The cache lookup\<close>

lemma truthy_verified:
  "truthy (verified fs p) = (case p of None \<Rightarrow> False | Some x \<Rightarrow> x \<noteq> [] \<and> fs x \<noteq> None)"
  by (auto simp: verified_def truthy_def existsSync_def split: option.splits)

lemma truthy_verified_D:
  "truthy (verified fs p) \<Longrightarrow> truthy p \<and> existsSync fs (the p) \<and> verified fs p = p"
  by (auto simp: verified_def truthy_def split: if_splits)

lemma find_None_has_key:
  "(find (\<lambda>r. cache_key r = k) (processed_cache s) = None) = (\<not> has_key k s)"
  by (auto simp: has_key_def find_None_iff list_ex_iff)

lemma has_key_removeFromCache: "\<not> has_key k (removeFromCache k s)"
  by (auto simp: has_key_def removeFromCache_def emit_def list_ex_iff)

lemma checkCache_no_row:
  "find (\<lambda>r. cache_key r = generateCacheKey ttl art q) (processed_cache s) = None
   \<Longrightarrow> checkCache fs t ttl art q s = (None, s)"
  by (simp add: checkCache_def)

lemma checkCache_row:
  "find (\<lambda>r. cache_key r = generateCacheKey ttl art q) (processed_cache s) = Some row
   \<Longrightarrow> checkCache fs t ttl art q s =
       (if mandatory_present fs row
        then (Some (hit_of fs (generateCacheKey ttl art q) row),
              updateLastAccessed t (generateCacheKey ttl art q) s)
        else (None, removeFromCache (generateCacheKey ttl art q)
                      (updateLastAccessed t (generateCacheKey ttl art q) s)))"
  by (auto simp: checkCache_def Let_def hit_of_def truthy_verified mandatory_present_def
      split: option.splits)

text \<open>
  C3.  A lookup that returns a miss leaves no row under the key; a lookup that returns
  a hit found a row whose instrumental and video files are named and exist, and the
  hit carries exactly these two paths; and a row with a mandatory file missing always
  gives a miss.
\<close>

theorem checkCache_never_stale:
  "(case checkCache fs t ttl art q s of
      (None, s') \<Rightarrow> \<not> has_key (generateCacheKey ttl art q) s'
    | (Some hit, s') \<Rightarrow>
        (case find (\<lambda>r. cache_key r = generateCacheKey ttl art q) (processed_cache s) of
           None \<Rightarrow> False
         | Some row \<Rightarrow>
             mandatory_present fs row
             \<and> instrumental (files hit) = c_instrumental_path row
             \<and> video (files hit) = c_video_path row
             \<and> truthy (instrumental (files hit)) \<and> existsSync fs (the (instrumental (files hit)))
             \<and> truthy (video (files hit)) \<and> existsSync fs (the (video (files hit)))))
   \<and> (case find (\<lambda>r. cache_key r = generateCacheKey ttl art q) (processed_cache s) of
         None \<Rightarrow> fst (checkCache fs t ttl art q s) = None
       | Some row \<Rightarrow> (fst (checkCache fs t ttl art q s) = None) = (\<not> mandatory_present fs row))"
proof (cases "find (\<lambda>r. cache_key r = generateCacheKey ttl art q) (processed_cache s)")
  case None
  moreover from None have "\<not> has_key (generateCacheKey ttl art q) s"
    by (simp add: find_None_has_key)
  ultimately show ?thesis
    by (simp add: checkCache_no_row)
next
  case (Some row)
  show ?thesis
  proof (cases "mandatory_present fs row")
    case True
    then have v: "truthy (verified fs (c_instrumental_path row))"
        "truthy (verified fs (c_video_path row))"
      by (simp_all add: truthy_verified mandatory_present_def)
    show ?thesis
      using Some True truthy_verified_D [OF v(1)] truthy_verified_D [OF v(2)]
      by (simp add: checkCache_row hit_of_def)
  next
    case False
    then show ?thesis
      using Some by (simp add: checkCache_row has_key_removeFromCache)
  qed
qed

lemmas cache_example_defs =
  cachedState_def cachedRow_def mkState_def mkSong_def fsStale_def fsFull_def
  checkCache_def has_key_def removeFromCache_def updateLastAccessed_def emit_def
  verified_def truthy_def existsSync_def Let_def

theorem checkCache_never_stale_witness:
  "fst (checkCache fsStale 7 ''Bohemian Rhapsody'' ''Queen'' ''high'' cachedState) = None
   \<and> \<not> has_key (generateCacheKey ''Bohemian Rhapsody'' ''Queen'' ''high'')
         (snd (checkCache fsStale 7 ''Bohemian Rhapsody'' ''Queen'' ''high'' cachedState))
   \<and> map_option (\<lambda>hit. (instrumental (files hit), video (files hit)))
         (fst (checkCache fsFull 7 ''Bohemian Rhapsody'' ''Queen'' ''high'' cachedState))
       = Some (Some ''/cache/instrumental.wav'', Some ''/cache/karaoke.mp4'')"
  using checkCache_never_stale [where fs = fsStale and t = 7 and ttl = "''Bohemian Rhapsody''"
      and art = "''Queen''" and q = "''high''" and s = cachedState]
  by (simp add: cache_example_defs)

lemma filter_touch:
  "filter (\<lambda>r. cache_key r \<noteq> k)
       (map (\<lambda>r. if cache_key r = k then r\<lparr>last_accessed := t\<rparr> else r) xs)
     = filter (\<lambda>r. cache_key r \<noteq> k) xs"
  by (induction xs) simp_all

lemma other_rows_touch: "other_rows k (updateLastAccessed t k s) = other_rows k s"
  by (simp add: other_rows_def updateLastAccessed_def emit_def filter_touch)

lemma other_rows_remove: "other_rows k (removeFromCache k s) = other_rows k s"
  by (simp add: other_rows_def removeFromCache_def emit_def)

lemma cache_remove_touch:
  "processed_cache (removeFromCache k (updateLastAccessed t k s)) = other_rows k s"
  by (simp add: other_rows_def removeFromCache_def updateLastAccessed_def emit_def filter_touch)

lemma cache_touch:
  "processed_cache (updateLastAccessed t k s) = map (touch t k) (processed_cache s)"
  by (simp add: updateLastAccessed_def emit_def touch_def)

lemma trace_touch: "trace (updateLastAccessed t k s) = trace s @ [SqlTouchCache k t]"
  by (simp add: updateLastAccessed_def emit_def)

lemma trace_remove: "trace (removeFromCache k s) = trace s @ [SqlDeleteCache k]"
  by (simp add: removeFromCache_def emit_def)

lemma rest_touch:
  "songs (updateLastAccessed t k s) = songs s" "users (updateLastAccessed t k s) = users s"
  "processingJobs (updateLastAccessed t k s) = processingJobs s"
  "audioJobs (updateLastAccessed t k s) = audioJobs s"
  by (simp_all add: updateLastAccessed_def emit_def)

lemma rest_remove:
  "songs (removeFromCache k s) = songs s" "users (removeFromCache k s) = users s"
  "processingJobs (removeFromCache k s) = processingJobs s"
  "audioJobs (removeFromCache k s) = audioJobs s"
  by (simp_all add: removeFromCache_def emit_def)

text \<open>
  C10.  With no row under the key a lookup changes nothing.  With a row, the first
  statement it runs sets \<open>last_accessed\<close> of the key, on a hit and on a miss alike; on
  a hit this is all it does, on a miss the delete of the key follows.  Rows under
  other keys, and the rest of the state, stay as they were.
\<close>

theorem checkCache_frame:
  "(let k = generateCacheKey ttl art q; r = checkCache fs t ttl art q s
    in (if has_key k s
        then (case fst r of
                Some hit \<Rightarrow> trace (snd r) = trace s @ [SqlTouchCache k t]
                   \<and> processed_cache (snd r) = map (touch t k) (processed_cache s)
              | None \<Rightarrow> trace (snd r) = trace s @ [SqlTouchCache k t, SqlDeleteCache k]
                   \<and> processed_cache (snd r) = other_rows k s)
        else snd r = s)
       \<and> other_rows k (snd r) = other_rows k s
       \<and> songs (snd r) = songs s \<and> users (snd r) = users s
       \<and> processingJobs (snd r) = processingJobs s \<and> audioJobs (snd r) = audioJobs s)"
proof (cases "find (\<lambda>r. cache_key r = generateCacheKey ttl art q) (processed_cache s)")
  case None
  moreover from None have "\<not> has_key (generateCacheKey ttl art q) s"
    by (simp add: find_None_has_key)
  ultimately show ?thesis
    by (simp add: checkCache_no_row Let_def)
next
  case (Some row)
  then have "has_key (generateCacheKey ttl art q) s"
    using find_None_has_key [of "generateCacheKey ttl art q" s] by simp
  then show ?thesis
    using Some
    by (simp add: checkCache_row Let_def other_rows_touch other_rows_remove cache_remove_touch
        cache_touch trace_touch trace_remove rest_touch rest_remove)
qed

theorem checkCache_frame_witness:
  "has_key (generateCacheKey ''Bohemian Rhapsody'' ''Queen'' ''high'') cachedState
   \<and> trace (snd (checkCache fsStale 7 ''Bohemian Rhapsody'' ''Queen'' ''high'' cachedState))
       = [SqlTouchCache (generateCacheKey ''Bohemian Rhapsody'' ''Queen'' ''high'') 7,
          SqlDeleteCache (generateCacheKey ''Bohemian Rhapsody'' ''Queen'' ''high'')]
   \<and> processed_cache
         (snd (checkCache fsStale 7 ''Bohemian Rhapsody'' ''Queen'' ''high'' cachedState)) = []
   \<and> trace (snd (checkCache fsFull 7 ''Bohemian Rhapsody'' ''Queen'' ''high'' cachedState))
       = [SqlTouchCache (generateCacheKey ''Bohemian Rhapsody'' ''Queen'' ''high'') 7]
   \<and> map last_accessed (processed_cache
         (snd (checkCache fsFull 7 ''Bohemian Rhapsody'' ''Queen'' ''high'' cachedState))) = [7]"
  using checkCache_frame [where fs = fsStale and t = 7 and ttl = "''Bohemian Rhapsody''"
      and art = "''Queen''" and q = "''high''" and s = cachedState]
  by (simp add: cache_example_defs)

section \<open>The queue\<close>

text \<open>
  C9, as amended.  \<open>getQueue\<close> returns exactly the songs that are queued, processing,
  ready or playing (and whose user row the join finds), ordered by \<open>requested_at\<close>;
  it returns no failed and no completed song.
\<close>

theorem getQueue_active:
  "mset (getQueue s) =
     mset (filter (\<lambda>r. (status r = Queued \<or> status r = Processing \<or> status r = Ready
                          \<or> status r = Playing)
                        \<and> users s (user_id r) \<noteq> None) (songs s))
   \<and> sorted (map requested_at (getQueue s))
   \<and> list_all (\<lambda>r. status r \<noteq> Failed \<and> status r \<noteq> Completed) (getQueue s)"
proof -
  have "filter (\<lambda>r. status r \<in> {Queued, Processing, Ready, Playing}) (joined s) =
      filter (\<lambda>r. (status r = Queued \<or> status r = Processing \<or> status r = Ready
                     \<or> status r = Playing)
                   \<and> users s (user_id r) \<noteq> None) (songs s)"
    by (auto simp: joined_def intro: filter_cong)
  moreover have "list_all (\<lambda>r. status r \<noteq> Failed \<and> status r \<noteq> Completed) (getQueue s)"
    by (auto simp: getQueue_def list_all_iff)
  ultimately show ?thesis
    by (simp add: getQueue_def)
qed

theorem getQueue_active_witness:
  "map song_id (getQueue afterFailure) = [''B'']
   \<and> sorted (map requested_at (getQueue afterFailure))"
  using getQueue_active [of afterFailure]
  by (simp add: afterFailure_def mkState_def mkSong_def getQueue_def joined_def)

text \<open>C9 as stated fails: a failed song is not completed, and is not in the queue.\<close>

theorem getQueue_drops_failed:
  "map status (songs afterFailure) = [Queued, Failed]
   \<and> map song_id (filter (\<lambda>r. status r \<noteq> Completed) (songs afterFailure)) = [''B'', ''A'']
   \<and> map song_id (getQueue afterFailure) = [''B'']"
  by (simp add: afterFailure_def mkState_def mkSong_def getQueue_def joined_def)

text \<open>
  C7 fails on the code: the completion route marks the given song completed and
  promotes the next ready song without looking at which song plays.  From a state
  with no song playing, starting \<open>A\<close> and completing \<open>A\<close> twice (a repeated request)
  leaves \<open>B\<close> and \<open>C\<close> both playing; and starting \<open>A\<close> and completing \<open>C\<close>, a
  song that does not play, leaves \<open>A\<close> and \<open>B\<close> both playing.
\<close>

theorem completeSong_two_playing:
  "playing trio = []
   \<and> map status (songs (snd (startSong ''A'' trio))) = [Playing, Ready, Ready]
   \<and> map status (songs (snd (completeSong ''A'' (snd (startSong ''A'' trio)))))
        = [Completed, Playing, Ready]
   \<and> map status (songs (snd (completeSong ''A'' (snd (completeSong ''A''
        (snd (startSong ''A'' trio)))))))
        = [Completed, Playing, Playing]
   \<and> playing party = []
   \<and> map status (songs (snd (startSong ''A'' party))) = [Playing, Ready, Queued]
   \<and> map status (songs (snd (completeSong ''C'' (snd (startSong ''A'' party)))))
        = [Playing, Playing, Completed]
   \<and> map song_id (playing (snd (completeSong ''C'' (snd (startSong ''A'' party)))))
        = [''A'', ''B'']"
  by (simp add: trio_def party_def mkState_def mkSong_def playing_def startSong_def
      completeSong_def getSong_def getCurrentSong_def getQueue_def joined_def
      updateSongStatus_def emit_def set_status_def orNull_def truthy_def)


section \<open>Events and fields of the basic operations\<close>

lemma trace_emit [simp]: "trace (emit ev s) = trace s @ [ev]"
  by (simp add: emit_def)

lemma emit_fields [simp]:
  "songs (emit ev s) = songs s" "users (emit ev s) = users s"
  "processed_cache (emit ev s) = processed_cache s"
  "processingJobs (emit ev s) = processingJobs s" "audioJobs (emit ev s) = audioJobs s"
  by (simp_all add: emit_def)

lemma trace_updateSongStatus [simp]:
  "trace (updateSongStatus i st p s) = trace s @ [SqlUpdateStatus i st p]"
  by (simp add: updateSongStatus_def)

lemma updateSongStatus_fields [simp]:
  "users (updateSongStatus i st p s) = users s"
  "processed_cache (updateSongStatus i st p s) = processed_cache s"
  "processingJobs (updateSongStatus i st p s) = processingJobs s"
  "audioJobs (updateSongStatus i st p s) = audioJobs s"
  by (simp_all add: updateSongStatus_def)

lemma songs_updateSongStatus:
  "songs (updateSongStatus i st p s) =
     map (\<lambda>r. if song_id r = i then set_status st p r else r) (songs s)"
  by (simp add: updateSongStatus_def)

lemma trace_updateSongPaths:
  "trace (updateSongPaths i p s) =
     trace s @ (if truthy (original_audio_path p) \<or> truthy (instrumental_path p)
                   \<or> truthy (lyrics_path p) \<or> truthy (video_path p)
                then [SqlUpdatePaths i p] else [])"
  by (simp add: updateSongPaths_def)

lemma updateSongPaths_fields [simp]:
  "users (updateSongPaths i p s) = users s"
  "processed_cache (updateSongPaths i p s) = processed_cache s"
  "processingJobs (updateSongPaths i p s) = processingJobs s"
  "audioJobs (updateSongPaths i p s) = audioJobs s"
  by (simp_all add: updateSongPaths_def)

lemma releaseJob_fields [simp]:
  "songs (releaseJob i s) = songs s" "trace (releaseJob i s) = trace s @ [JobsDelete i]"
  "processingJobs (releaseJob i s) = (processingJobs s)(i := None)"
  by (simp_all add: releaseJob_def)

lemma registerJob_fields [simp]:
  "songs (registerJob i opts s) = songs s" "users (registerJob i opts s) = users s"
  "processed_cache (registerJob i opts s) = processed_cache s"
  "trace (registerJob i opts s) = trace s @ [JobsSet i \<lparr>songId = i, job_options = job_defaults opts\<rparr>]"
  "processingJobs (registerJob i opts s) = (processingJobs s)(i \<mapsto> \<lparr>songId = i, job_options = job_defaults opts\<rparr>)"
  by (simp_all add: registerJob_def Let_def)

lemma trace_torrent_ticks [simp]:
  "trace (fold (torrentProgress i) ps s) =
     trace s @ map (\<lambda>p. SqlUpdateStatus i Processing (Some (10 + js_round (p * (15 / 100))))) ps"
  by (induction ps arbitrary: s) (simp_all add: torrentProgress_def)

lemma trace_lateTicks [simp]:
  "trace (lateTicks e i ps s) =
     trace s @ (if abandoned e
                then map (\<lambda>p. SqlUpdateStatus i Processing (Some (10 + js_round (p * (15 / 100))))) ps
                else [])"
  by (simp add: lateTicks_def)

lemma list_all_map_if:
  assumes "\<And>r. c r \<Longrightarrow> P (f r)" and "\<And>r. \<not> c r \<Longrightarrow> P r"
  shows "list_all P (map (\<lambda>r. if c r then f r else r) xs)"
  using assms by (induction xs) simp_all

text \<open>
  C4, as amended.  When the body of the \<^verbatim>\<open>try\<close> throws, the run ends with every
  row of the song set to status failed and progress \<open>0\<close> and otherwise as the body
  left it, the registry slot is released, and the last three events are the error
  going to the console, the status write and the release: nothing is started again,
  and the reason is stored nowhere in the tables.
\<close>

theorem processKaraokeSong_failure:
  assumes "fst (tryBody e i opts (registerJob i opts s)) = Inl err"
  shows "songs (processKaraokeSong e i opts s) =
           map (\<lambda>r. if song_id r = i then r\<lparr>status := Failed, processing_progress := 0\<rparr> else r)
             (songs (snd (tryBody e i opts (registerJob i opts s))))
         \<and> list_all (\<lambda>r. song_id r = i \<longrightarrow> status r = Failed \<and> processing_progress r = 0)
             (songs (processKaraokeSong e i opts s))
         \<and> processingJobs (processKaraokeSong e i opts s) i = None
         \<and> trace (processKaraokeSong e i opts s) =
             trace (snd (tryBody e i opts (registerJob i opts s)))
               @ [ConsoleError i err, SqlUpdateStatus i Failed (Some 0), JobsDelete i]"
proof -
  let ?r = "tryBody e i opts (registerJob i opts s)"
  have c: "catchFailed i ?r =
      updateSongStatus i Failed (Some 0) (emit (ConsoleError i err) (snd ?r))"
    using assms by (simp add: catchFailed_def)
  have 1: "songs (processKaraokeSong e i opts s) =
           map (\<lambda>r. if song_id r = i then r\<lparr>status := Failed, processing_progress := 0\<rparr> else r)
             (songs (snd ?r))"
    by (simp add: processKaraokeSong_def c songs_updateSongStatus set_status_def)
  have 2: "list_all (\<lambda>r. song_id r = i \<longrightarrow> status r = Failed \<and> processing_progress r = 0)
             (songs (processKaraokeSong e i opts s))"
    unfolding 1 by (rule list_all_map_if) simp_all
  have 3: "processingJobs (processKaraokeSong e i opts s) i = None"
    by (simp add: processKaraokeSong_def)
  have 4: "trace (processKaraokeSong e i opts s) =
             trace (snd ?r) @ [ConsoleError i err, SqlUpdateStatus i Failed (Some 0), JobsDelete i]"
    by (simp add: processKaraokeSong_def c)
  from 1 2 3 4 show ?thesis by blast
qed


section \<open>Progress within one run\<close>

lemma progressWrites_append [simp]:
  "progressWrites i (xs @ ys) = progressWrites i xs @ progressWrites i ys"
  by (induction i xs rule: progressWrites.induct) simp_all

lemma progressWrites_ticks [simp]:
  "progressWrites i (map (\<lambda>p. SqlUpdateStatus i Processing (Some (f p))) ps) = map f ps"
  by (induction ps) simp_all

lemma stepwise_Nil [simp]: "lo \<le> hi \<Longrightarrow> stepwise lo hi []"
  by (simp add: stepwise_def)

lemma stepwise_single [simp]: "stepwise lo hi [x] = (lo \<le> x \<and> x \<le> hi)"
  by (simp add: stepwise_def)

lemma stepwise_append:
  assumes "stepwise a b xs" "stepwise c d ys" "a \<le> b" "b \<le> c" "c \<le> d"
  shows "stepwise a d (xs @ ys)"
proof -
  have x: "sorted xs" "\<forall>x\<in>set xs. a \<le> x \<and> x \<le> b"
    using assms(1) by (simp_all add: stepwise_def list_all_iff)
  have y: "sorted ys" "\<forall>y\<in>set ys. c \<le> y \<and> y \<le> d"
    using assms(2) by (simp_all add: stepwise_def list_all_iff)
  have "sorted (xs @ ys)"
    unfolding sorted_append using x y assms(4) by force
  moreover have "\<forall>z\<in>set (xs @ ys). a \<le> z \<and> z \<le> d"
    using x(2) y(2) assms(3,4,5) by force
  ultimately show ?thesis
    by (simp add: stepwise_def list_all_iff)
qed

lemma stepwise_widen: "stepwise a b xs \<Longrightarrow> a' \<le> a \<Longrightarrow> b \<le> b' \<Longrightarrow> stepwise a' b' xs"
  unfolding stepwise_def list_all_iff by force

lemma js_round_mono: "x \<le> y \<Longrightarrow> js_round x \<le> js_round y"
  by (simp add: js_round_def floor_mono)

lemma js_round_scaled:
  assumes "0 \<le> p" "p \<le> 100" "0 \<le> c" "c * 100 = of_int k"
  shows "0 \<le> js_round (p * c) \<and> js_round (p * c) \<le> k"
proof -
  have "0 \<le> p * c" using assms by simp
  then have "js_round 0 \<le> js_round (p * c)" by (rule js_round_mono)
  moreover have "js_round 0 = 0" by (simp add: js_round_def floor_eq_iff)
  moreover have "p * c \<le> of_int k"
    using assms mult_right_mono [of p 100 c] by (simp add: mult.commute)
  then have "js_round (p * c) \<le> js_round (of_int k)" by (rule js_round_mono)
  moreover have "js_round (of_int k) = k" by (simp add: js_round_def floor_eq_iff)
  ultimately show ?thesis by simp
qed

lemma sorted_map_mono:
  assumes "sorted xs" and "\<And>x y. x \<le> y \<Longrightarrow> f x \<le> f y"
  shows "sorted (map f xs)"
  using assms by (induction xs) auto

lemma stepwise_scaled:
  assumes "ticksOK ps" "0 \<le> c" "c * 100 = of_int k"
  shows "stepwise b (b + k) (map (\<lambda>p. b + js_round (p * c)) ps)"
proof -
  have s: "sorted ps" and r: "\<forall>p\<in>set ps. 0 \<le> p \<and> p \<le> 100"
    using assms(1) by (simp_all add: ticksOK_def list_all_iff)
  have m: "b + js_round (x * c) \<le> b + js_round (y * c)" if "x \<le> y" for x y
    using that assms(2) by (simp add: js_round_mono mult_right_mono)
  have 1: "sorted (map (\<lambda>p. b + js_round (p * c)) ps)"
    using s m by (rule sorted_map_mono)
  have 2: "b \<le> b + js_round (p * c) \<and> b + js_round (p * c) \<le> b + k" if "p \<in> set ps" for p
  proof -
    from that r have "0 \<le> p" "p \<le> 100" by simp_all
    from js_round_scaled [OF this assms(2) assms(3)] show ?thesis by simp
  qed
  show ?thesis
    unfolding stepwise_def list_all_iff using 1 2 by simp
qed

lemma stepwise_torrent:
  "ticksOK ps \<Longrightarrow> stepwise 10 25 (map (\<lambda>p. 10 + js_round (p * (15 / 100))) ps)"
  using stepwise_scaled [of ps "15 / 100" 15 10] by simp

lemma stepwise_separation:
  "ticksOK ps \<Longrightarrow> stepwise 45 70 (map (\<lambda>p. 45 + js_round (p * (25 / 100))) ps)"
  using stepwise_scaled [of ps "25 / 100" 25 45] by simp


lemma stepwise_Cons: "stepwise a b xs \<Longrightarrow> a \<le> b \<Longrightarrow> stepwise a b (a # xs)"
  by (auto simp: stepwise_def list_all_iff)

lemma advancesI:
  assumes "trace s' = trace s @ evs" and "ok \<Longrightarrow> stepwise lo hi (progressWrites i evs)"
  shows "advances ok i lo hi s s'"
  using assms by (simp add: advances_def newEvents_def)

lemma advancesD:
  "advances ok i lo hi s s' \<Longrightarrow>
     \<exists>evs. trace s' = trace s @ evs \<and> (ok \<longrightarrow> stepwise lo hi (progressWrites i evs))"
  by (auto simp: advances_def newEvents_def prefix_def)

lemma advances_trans:
  assumes "advances ok i a b s s'" and "advances ok i c d s' s''"
    and "a \<le> b" "b \<le> c" "c \<le> d"
  shows "advances ok i a d s s''"
proof -
  from advancesD [OF assms(1)] obtain evs where 1: "trace s' = trace s @ evs"
    and 2: "ok \<longrightarrow> stepwise a b (progressWrites i evs)" by blast
  from advancesD [OF assms(2)] obtain evs' where 3: "trace s'' = trace s' @ evs'"
    and 4: "ok \<longrightarrow> stepwise c d (progressWrites i evs')" by blast
  show ?thesis
  proof (rule advancesI)
    show "trace s'' = trace s @ (evs @ evs')" by (simp add: 1 3)
    show "stepwise a d (progressWrites i (evs @ evs'))" if ok
      using that 2 4 stepwise_append [of a b "progressWrites i evs" c d "progressWrites i evs'"]
        assms(3-5) by simp
  qed
qed

lemma advances_widen:
  assumes "advances ok i a b s s'" "a' \<le> a" "b \<le> b'"
  shows "advances ok i a' b' s s'"
  using assms stepwise_widen [of a b _ a' b'] by (auto simp: advances_def)

lemma advances_refl: "lo \<le> hi \<Longrightarrow> advances ok i lo hi s s"
  by (rule advancesI [where evs = "[]"]) simp_all

lemma advances_status:
  "st \<noteq> Failed \<Longrightarrow> advances ok i p p s (updateSongStatus i st (Some p) s)"
  by (rule advancesI [where evs = "[SqlUpdateStatus i st (Some p)]"]) simp_all

lemma advances_call: "lo \<le> hi \<Longrightarrow> advances ok i lo hi s (emit (Invoke c) s)"
  by (rule advancesI [where evs = "[Invoke c]"]) simp_all

lemma advances_paths: "lo \<le> hi \<Longrightarrow> advances ok i lo hi s (updateSongPaths j p s)"
  by (rule advancesI [where evs = "if truthy (original_audio_path p) \<or> truthy (instrumental_path p)
                   \<or> truthy (lyrics_path p) \<or> truthy (video_path p)
                then [SqlUpdatePaths j p] else []"]) (simp_all add: trace_updateSongPaths)


lemma advancesI_ex:
  "\<exists>evs. trace s' = trace s @ evs \<and> (ok \<longrightarrow> stepwise lo hi (progressWrites i evs))
   \<Longrightarrow> advances ok i lo hi s s'"
  by (auto intro: advancesI)

lemma advances_acquire: "advances (steady e) i 10 25 s (snd (acquire e i ttl art s))"
proof (cases "findBestMatch e")
  case (Inl err)
  then show ?thesis
    by (intro advancesI_ex) (simp add: acquire_def Let_def)
next
  case (Inr torrentResult)
  show ?thesis
  proof (cases torrentResult)
    case None
    with Inr show ?thesis
      by (intro advancesI_ex) (simp add: acquire_def Let_def trace_updateSongPaths truthy_def)
  next
    case (Some magnet)
    have w: "stepwise 10 25 (10 # map (\<lambda>p. 10 + js_round (p * (15 / 100))) (torrentTicks e))"
      if "steady e"
      using that by (intro stepwise_Cons stepwise_torrent) (simp_all add: steady_def)
    show ?thesis
    proof (cases "downloadAudio e")
      case (Resolved ps r)
      with Inr Some w show ?thesis
        by (intro advancesI_ex)
          (simp add: acquire_def Let_def trace_updateSongPaths torrentTicks_def)
    next
      case (Rejected ps err)
      with Inr Some w show ?thesis
        by (intro advancesI_ex)
          (simp add: acquire_def Let_def trace_updateSongPaths torrentTicks_def truthy_def)
    next
      case (TimedOut ps)
      with Inr Some w show ?thesis
        by (intro advancesI_ex)
          (simp add: acquire_def Let_def trace_updateSongPaths torrentTicks_def truthy_def)
    qed
  qed
qed

lemma snd_youtube:
  "snd (youtube e i ttl art s) =
     lateTicks e i (late_youtube e)
       (emit (Invoke (GetBestKaraokeVideo ttl art)) (updateSongStatus i Processing (Some 30) s))"
  by (simp add: youtube_def Let_def split: sum.splits)

lemma advances_youtube: "advances (steady e) i 30 30 s (snd (youtube e i ttl art s))"
  by (intro advancesI_ex) (simp add: snd_youtube steady_def noLateTicks_def)

lemma separationTick_simps:
  "separationTick e i (Own p) s =
     updateSongStatus i Processing (Some (45 + js_round (p * (25 / 100)))) s"
  "separationTick e i (Late p) s = lateTicks e i [p] s"
  by (simp_all add: separationTick_def separationProgress_def)

lemma separation_ticks:
  "\<exists>evs. trace (fold (separationTick e i) ts s) = trace s @ evs
      \<and> ((\<not> abandoned e \<or> lateOnes ts = []) \<longrightarrow>
           progressWrites i evs = map (\<lambda>p. 45 + js_round (p * (25 / 100))) (ownTicks ts))"
proof (induction ts arbitrary: s)
  case Nil
  then show ?case by simp
next
  case (Cons t ts)
  from Cons [of "separationTick e i t s"] obtain evs where
    1: "trace (fold (separationTick e i) ts (separationTick e i t s))
          = trace (separationTick e i t s) @ evs"
    and 2: "(\<not> abandoned e \<or> lateOnes ts = []) \<longrightarrow>
           progressWrites i evs = map (\<lambda>p. 45 + js_round (p * (25 / 100))) (ownTicks ts)"
    by blast
  show ?case
  proof (cases t)
    case (Own p)
    with 1 2 show ?thesis
      by (simp add: separationTick_simps)
  next
    case (Late p)
    with 1 2 show ?thesis
      by (simp add: separationTick_simps)
  qed
qed

lemma advances_separate: "advances (steady e) i 45 70 s (snd (separate e i opts audioPath s))"
proof -
  let ?s1 = "emit (Invoke (SeparateVocals audioPath opts))
                 (updateSongStatus i Processing (Some 45) s)"
  from separation_ticks [of e i "fst (separateVocals e)" ?s1] obtain evs where
    1: "trace (fold (separationTick e i) (fst (separateVocals e)) ?s1) = trace ?s1 @ evs"
    and 2: "(\<not> abandoned e \<or> lateOnes (fst (separateVocals e)) = []) \<longrightarrow>
           progressWrites i evs =
             map (\<lambda>p. 45 + js_round (p * (25 / 100))) (ownTicks (fst (separateVocals e)))"
    by blast
  have w: "stepwise 45 70
             (45 # map (\<lambda>p. 45 + js_round (p * (25 / 100))) (ownTicks (fst (separateVocals e))))"
    if "steady e"
    using that by (intro stepwise_Cons stepwise_separation) (simp_all add: steady_def)
  have l: "\<not> abandoned e \<or> lateOnes (fst (separateVocals e)) = []" if "steady e"
    using that by (auto simp: steady_def noLateTicks_def)
  show ?thesis
  proof (cases "snd (separateVocals e)")
    case (Inl err)
    with 1 2 w l show ?thesis
      by (intro advancesI_ex) (auto simp: separate_def Let_def)
  next
    case (Inr instr)
    with 1 2 w l show ?thesis
      by (intro advancesI_ex) (auto simp: separate_def Let_def trace_updateSongPaths)
  qed
qed

lemma advances_syncLyrics:
  "advances (steady e) i 75 75 s (snd (syncLyrics e i ttl art instr s))"
  by (intro advancesI_ex)
    (auto simp: syncLyrics_def Let_def steady_def noLateTicks_def trace_updateSongPaths
      split: sum.splits)

lemma advances_compose:
  "advances (steady e) i 85 85 s (snd (compose e i instr karaokeVideoPath lyricsPath s))"
  by (intro advancesI_ex)
    (auto simp: compose_def Let_def steady_def noLateTicks_def split: sum.splits)

lemma advances_checkCache:
  assumes "lo \<le> hi"
  shows "advances ok i lo hi s (snd (checkCache fs t ttl art q s))"
proof (cases "find (\<lambda>r. cache_key r = generateCacheKey ttl art q) (processed_cache s)")
  case None
  then show ?thesis
    using assms by (simp add: checkCache_no_row advances_refl)
next
  case (Some row)
  then show ?thesis
    using assms
    by (intro advancesI_ex) (simp add: checkCache_row trace_touch trace_remove)
qed

lemma trace_addToCache:
  "\<exists>row. trace (snd (addToCache fs t ttl art q fl ytid s)) = trace s @ [SqlInsertCache row]"
  by (simp add: addToCache_def Let_def)

lemma advances_addToCache:
  assumes "lo \<le> hi"
  shows "advances ok i lo hi s (snd (addToCache fs t ttl art q fl ytid s))"
  using assms trace_addToCache [of fs t ttl art q fl ytid s]
  by (intro advancesI_ex) auto

lemma advances_pipeline:
  "advances (steady e) i 10 100 s (snd (pipeline e i opts ttl art s))"
proof -
  obtain a s1 where A: "acquire e i ttl art s = (a, s1)"
    by (cases "acquire e i ttl art s")
  have a1: "advances (steady e) i 10 25 s s1"
    using advances_acquire [of e i s ttl art] A by simp
  show ?thesis
  proof (cases a)
    case (Inl err)
    with A a1 show ?thesis
      by (simp add: pipeline_def advances_widen [of _ _ 10 25])
  next
    case (Inr audioPath)
    obtain y s2 where Y: "youtube e i ttl art s1 = (y, s2)"
      by (cases "youtube e i ttl art s1")
    have a2: "advances (steady e) i 10 30 s s2"
      using advances_trans [OF a1 advances_youtube [of e i s1 ttl art]] Y by simp
    obtain b s3 where B: "separate e i opts audioPath s2 = (b, s3)"
      by (cases "separate e i opts audioPath s2")
    have a3: "advances (steady e) i 10 70 s s3"
      using advances_trans [OF a2 advances_separate [of e i s2 opts audioPath]] B by simp
    show ?thesis
    proof (cases b)
      case (Inl err)
      with A Inr Y B a3 show ?thesis
        by (simp add: pipeline_def advances_widen [of _ _ 10 70])
    next
      case instr: (Inr instr)
      obtain c s4 where C: "syncLyrics e i ttl art instr s3 = (c, s4)"
        by (cases "syncLyrics e i ttl art instr s3")
      have a4: "advances (steady e) i 10 75 s s4"
        using advances_trans [OF a3 advances_syncLyrics [of e i s3 ttl art instr]] C by simp
      show ?thesis
      proof (cases c)
        case (Inl err)
        with A Inr Y B instr C a4 show ?thesis
          by (simp add: pipeline_def advances_widen [of _ _ 10 75])
      next
        case lyr: (Inr lyricsPath)
        obtain d s5 where D: "compose e i instr (map_option fst y) lyricsPath s4 = (d, s5)"
          by (cases "compose e i instr (map_option fst y) lyricsPath s4")
        have a5: "advances (steady e) i 10 85 s s5"
          using advances_trans
            [OF a4 advances_compose [of e i s4 instr "map_option fst y" lyricsPath]] D
          by simp
        show ?thesis
        proof (cases d)
          case (Inl err)
          with A Inr Y B instr C lyr D a5 show ?thesis
            by (simp add: pipeline_def advances_widen [of _ _ 10 85])
        next
          case fin: (Inr finalVideoPath)
          let ?s6 = "updateSongPaths i
                       \<lparr>original_audio_path = None, instrumental_path = None,
                        lyrics_path = None, video_path = Some finalVideoPath\<rparr> s5"
          let ?s7 = "snd (addToCache (fs_cache e) (now e) ttl art (quality opts)
                            \<lparr>original = Some audioPath, instrumental = Some instr,
                             lyrics = orNull lyricsPath, video = Some finalVideoPath\<rparr>
                            (orNull (map_option snd y)) ?s6)"
          let ?s8 = "updateSongStatus i Ready (Some 100) ?s7"
          have a6: "advances (steady e) i 10 85 s ?s6"
            using advances_trans [OF a5 advances_paths [of 85 85]] by simp
          have a7: "advances (steady e) i 10 85 s ?s7"
            using advances_trans [OF a6 advances_addToCache [of 85 85]] by simp
          have a8: "advances (steady e) i 10 100 s ?s8"
            using advances_trans [OF a7 advances_status [of Ready]] by simp
          have a9: "advances (steady e) i 10 100 s (emit (Invoke c') ?s8)" for c'
            using advances_trans [OF a8 advances_call [of 100 100]] by simp
          from A Inr Y B instr C lyr D fin a8 a9 show ?thesis
            by (simp add: pipeline_def Let_def)
        qed
      qed
    qed
  qed
qed

lemma advances_tryBody_from:
  assumes "getSong i s = Some song"
  shows "advances (steady e) i 5 100 (updateSongStatus i Processing (Some 5) s)
           (snd (tryBody e i opts s))"
proof -
  let ?s1 = "updateSongStatus i Processing (Some 5) s"
  obtain cached s2 where C: "checkCache (fs_lookup e) (now e) (song_title song)
      (song_artist song) (quality opts) ?s1 = (cached, s2)"
    by (cases "checkCache (fs_lookup e) (now e) (song_title song)
      (song_artist song) (quality opts) ?s1")
  have a2: "advances (steady e) i 5 5 ?s1 s2"
    using advances_checkCache [of 5 5 "steady e" i ?s1] C
    by (metis order_refl snd_conv)
  show ?thesis
  proof (cases "cached \<noteq> None \<and> useCache opts = Some True")
    case True
    have a3: "advances (steady e) i 5 5 ?s1 (updateSongPaths i p s2)" for p
      using advances_trans [OF a2 advances_paths [of 5 5]] by simp
    have "advances (steady e) i 5 100 ?s1
        (updateSongStatus i Ready (Some 100) (updateSongPaths i p s2))" for p
      using advances_trans [OF a3 advances_status [of Ready]] by simp
    with assms C True show ?thesis
      by (simp add: tryBody_def Let_def)
  next
    case False
    have "advances (steady e) i 5 100 ?s1
        (snd (pipeline e i opts (song_title song) (song_artist song) s2))"
      using advances_trans [OF a2 advances_pipeline] by simp
    with assms C False show ?thesis
      by (auto simp add: tryBody_def Let_def)
  qed
qed

lemma advances_tryBody: "advances (steady e) i 5 100 s (snd (tryBody e i opts s))"
proof (cases "getSong i s")
  case None
  then show ?thesis
    by (simp add: tryBody_def advances_refl)
next
  case (Some song)
  have a1: "advances (steady e) i 5 5 s (updateSongStatus i Processing (Some 5) s)"
    by (rule advances_status) simp
  show ?thesis
    using advances_trans [OF a1 advances_tryBody_from [OF Some]] by simp
qed

lemma advances_catchFailed:
  assumes "lo \<le> hi"
  shows "advances ok i lo hi (snd rs) (catchFailed i rs)"
  using assms
  by (intro advancesI_ex) (simp add: catchFailed_def split: sum.splits)

lemma advances_processKaraokeSong:
  "advances (steady e) i 5 100 s (processKaraokeSong e i opts s)"
proof -
  let ?s1 = "registerJob i opts s"
  let ?rs = "tryBody e i opts ?s1"
  have a1: "advances (steady e) i 5 5 s ?s1"
    by (intro advancesI_ex) simp
  have a2: "advances (steady e) i 5 100 s (snd ?rs)"
    using advances_trans [OF a1 advances_tryBody] by simp
  have a3: "advances (steady e) i 5 100 s (catchFailed i ?rs)"
    using advances_trans [OF a2 advances_catchFailed [of 100 100]] by simp
  have a4: "advances (steady e) i 100 100 (catchFailed i ?rs) (releaseJob i (catchFailed i ?rs))"
    by (intro advancesI_ex) simp
  show ?thesis
    using advances_trans [OF a3 a4] by (simp add: processKaraokeSong_def)
qed

text \<open>
  C8, as amended.  When no callback of an abandoned download arrives late and each
  callback reports non-decreasing values between \<open>0\<close> and \<open>100\<close>, the progress values
  a run writes before a failure resets them are non-decreasing and lie between \<open>5\<close>
  and \<open>100\<close>.
\<close>

theorem progress_monotone:
  assumes "steady e"
  shows "sorted (progressWrites i (newEvents s (processKaraokeSong e i opts s)))
         \<and> list_all (\<lambda>p. 5 \<le> p \<and> p \<le> 100)
             (progressWrites i (newEvents s (processKaraokeSong e i opts s)))"
  using assms advances_processKaraokeSong [of e i s opts]
  by (simp add: advances_def stepwise_def)

theorem progress_monotone_witness:
  "steady goodEnv
   \<and> sorted (progressWrites ''s1'' (newEvents oneQueued
        (processKaraokeSong goodEnv ''s1'' routeOptions oneQueued)))"
proof -
  have s: "steady goodEnv"
    by (simp add: steady_def goodEnv_def quietEnv_def noLateTicks_def abandoned_def ticksOK_def
        torrentTicks_def)
  from progress_monotone [OF s, of "''s1''" oneQueued routeOptions] s show ?thesis
    by simp
qed

subsection \<open>Evaluating runs\<close>

lemma js_round_frac:
  assumes "0 < b"
  shows "js_round (of_int a / of_int b) = (2 * a + b) div (2 * b)"
proof -
  have "of_int a / of_int b + 1 / 2 = (of_int (2 * a + b) :: rat) / of_int (2 * b)"
    using assms by (simp add: field_simps)
  then show ?thesis
    by (simp only: js_round_def floor_divide_of_int_eq)
qed

lemma js_round_numeral [simp]:
  "js_round 0 = 0"
  "js_round (numeral n) = numeral n"
  "js_round (numeral n / numeral m) = (2 * numeral n + numeral m) div (2 * numeral m)"
  "js_round (1 / numeral m) = (2 + numeral m) div (2 * numeral m)"
  using js_round_frac [of 1 0] js_round_frac [of 1 "numeral n"]
    js_round_frac [of "numeral m" "numeral n"] js_round_frac [of "numeral m" 1]
  by simp_all

lemmas run_defs =
  processKaraokeSong_def registerJob_def tryBody_def catchFailed_def releaseJob_def
  pipeline_def acquire_def youtube_def separate_def syncLyrics_def compose_def
  getSong_def joined_def checkCache_def addToCache_def
  updateSongStatus_def updateSongPaths_def emit_def set_status_def set_paths_def
  truthy_def orNull_def existsSync_def
  lateTicks_def abandoned_def torrentProgress_def separationTick_def separationProgress_def
  job_defaults_def newEvents_def Let_def

lemmas example_defs =
  oneQueued_def mkState_def mkSong_def quietEnv_def routeOptions_def

text \<open>
  C8 as stated fails.  The download reports \<open>0\<close> and later \<open>1\<close>, non-decreasing and
  within \<open>[0, 1]\<close>; the second report arrives after the run wrote \<open>30\<close>, and writes
  \<open>10\<close>.
\<close>

theorem late_tick_breaks_order:
  "torrentTicks lateEnv @ late_youtube lateEnv = [0, 1]
   \<and> progressWrites ''s1'' (newEvents oneQueued
         (processKaraokeSong lateEnv ''s1'' routeOptions oneQueued)) = [5, 10, 10, 30, 10, 45]
   \<and> \<not> sorted (progressWrites ''s1'' (newEvents oneQueued
         (processKaraokeSong lateEnv ''s1'' routeOptions oneQueued)))"
  by (simp add: run_defs example_defs lateEnv_def torrentTicks_def)

lemma goodEnv_progress:
  "progressWrites ''s1'' (newEvents oneQueued
         (processKaraokeSong goodEnv ''s1'' routeOptions oneQueued))
     = [5, 10, 10, 18, 25, 30, 45, 48, 69, 70, 75, 85, 100]"
  by (simp add: run_defs example_defs goodEnv_def dirname_def path_join_def)

section \<open>Failure of a run\<close>

theorem processKaraokeSong_failure_witness:
  "fst (tryBody quietEnv ''s1'' routeOptions (registerJob ''s1'' routeOptions oneQueued))
     = Inl ''Could not acquire audio for: Queen - Bohemian Rhapsody''
   \<and> statusAndProgress (processKaraokeSong quietEnv ''s1'' routeOptions oneQueued)
       = [(''s1'', Failed, 0)]
   \<and> processingJobs (processKaraokeSong quietEnv ''s1'' routeOptions oneQueued) ''s1'' = None"
proof -
  have h: "fst (tryBody quietEnv ''s1'' routeOptions (registerJob ''s1'' routeOptions oneQueued))
     = Inl ''Could not acquire audio for: Queen - Bohemian Rhapsody''"
    by (simp add: run_defs example_defs)
  from processKaraokeSong_failure [OF h] h show ?thesis
    by (simp add: run_defs example_defs statusAndProgress_def)
qed

text \<open>
  C4 as stated fails in one part: the reason of a failure is not recorded.  Two runs
  that fail in the separation for different reasons leave the same \<^verbatim>\<open>songs\<close> table;
  the reason is in what \<^verbatim>\<open>console.error\<close> printed, and nowhere else.
\<close>

theorem failure_reason_not_recorded:
  "fst (tryBody demucsEnv ''s1'' routeOptions (registerJob ''s1'' routeOptions oneQueued))
     = Inl ''Demucs failed with exit code 1''
   \<and> fst (tryBody spleeterEnv ''s1'' routeOptions (registerJob ''s1'' routeOptions oneQueued))
     = Inl ''Spleeter failed with exit code 1''
   \<and> songs (processKaraokeSong demucsEnv ''s1'' routeOptions oneQueued)
     = songs (processKaraokeSong spleeterEnv ''s1'' routeOptions oneQueued)
   \<and> statusAndProgress (processKaraokeSong demucsEnv ''s1'' routeOptions oneQueued)
     = [(''s1'', Failed, 0)]
   \<and> filter (\<lambda>ev. case ev of ConsoleError j err \<Rightarrow> True | _ \<Rightarrow> False)
        (trace (processKaraokeSong demucsEnv ''s1'' routeOptions oneQueued))
     = [ConsoleError ''s1'' ''Demucs failed with exit code 1'']"
  by (simp add: run_defs example_defs demucsEnv_def spleeterEnv_def statusAndProgress_def)

section \<open>A second submission\<close>

lemma advances_prefix: "advances ok i lo hi s s' \<Longrightarrow> prefix (trace s) (trace s')"
  by (simp add: advances_def)

lemma getSong_registerJob [simp]: "getSong i (registerJob j opts s) = getSong i s"
  by (simp add: getSong_def joined_def)

lemma prefix_trans: "prefix xs ys \<Longrightarrow> prefix ys zs \<Longrightarrow> prefix xs zs"
  by (rule prefix_order.trans)

lemma prefix_catchFailed: "prefix (trace (snd rs)) (trace (catchFailed i rs))"
  by (simp add: catchFailed_def split: sum.splits)

lemma processKaraokeSong_begins:
  "prefix (trace s @ [JobsSet i \<lparr>songId = i, job_options = job_defaults opts\<rparr>])
     (trace (processKaraokeSong e i opts s))
   \<and> (getSong i s \<noteq> None \<longrightarrow>
        prefix (trace s @ [JobsSet i \<lparr>songId = i, job_options = job_defaults opts\<rparr>,
                          SqlUpdateStatus i Processing (Some 5)])
          (trace (processKaraokeSong e i opts s)))"
proof -
  let ?s1 = "registerJob i opts s"
  let ?rs = "tryBody e i opts ?s1"
  have e: "prefix (trace (snd ?rs)) (trace (processKaraokeSong e i opts s))"
    using prefix_catchFailed [of ?rs i] by (simp add: processKaraokeSong_def)
  have "prefix (trace ?s1) (trace (snd ?rs))"
    using advances_tryBody by (rule advances_prefix)
  with e have 1: "prefix (trace ?s1) (trace (processKaraokeSong e i opts s))"
    by (rule prefix_trans [rotated])
  have 2: "prefix (trace (updateSongStatus i Processing (Some 5) ?s1))
      (trace (processKaraokeSong e i opts s))" if "getSong i s \<noteq> None"
  proof -
    from that obtain song where "getSong i ?s1 = Some song" by auto
    then have "prefix (trace (updateSongStatus i Processing (Some 5) ?s1)) (trace (snd ?rs))"
      using advances_tryBody_from by (intro advances_prefix) 
    with e show ?thesis by (rule prefix_trans [rotated])
  qed
  from 1 2 show ?thesis by simp
qed

lemma grows_audio_ticks: "advances False i 0 0 s (fold (audioProgress i) ts s)"
proof (induction ts arbitrary: s)
  case Nil
  then show ?case by (simp add: advances_refl)
next
  case (Cons t ts)
  have "advances False i 0 0 s (audioProgress i t s)"
    by (intro advancesI_ex) (simp add: audioProgress_def split: tick.splits)
  from advances_trans [OF this Cons] show ?case by simp
qed

lemma grows_audioLyrics:
  "advances False i 0 0 s (snd (audioLyrics e i opts ttl art instr s))"
  by (intro advancesI_ex)
    (auto simp: audioLyrics_def Let_def trace_updateSongPaths split: sum.splits)

lemma grows_audioBody:
  "advances False i 0 0 (updateSongStatus i Processing (Some 0) s) (snd (audioBody e i opts s))"
proof (cases "getSong i (updateSongStatus i Processing (Some 0) s)")
  case None
  then show ?thesis by (simp add: audioBody_def Let_def advances_refl)
next
  case (Some song)
  let ?s1 = "updateSongStatus i Processing (Some 0) s"
  let ?s2 = "emit (Invoke (AcquireAudioFile (song_title song) (song_artist song)))
                         (updateSongStatus i Processing (Some 10) ?s1)"
  have a2: "advances False i 0 0 ?s1 ?s2"
    by (intro advancesI_ex) simp
  show ?thesis
  proof (cases "truthy (acquireAudioFile e)")
    case False
    with Some a2 show ?thesis by (simp add: audioBody_def Let_def)
  next
    case True
    let ?s3 = "updateSongPaths i
                 \<lparr>original_audio_path = Some (the (acquireAudioFile e)), instrumental_path = None,
                  lyrics_path = None, video_path = None\<rparr> ?s2"
    let ?s4 = "emit (Invoke (SeparateVocals (the (acquireAudioFile e)) opts))
                 (updateSongStatus i Processing (Some 30) ?s3)"
    let ?s5 = "fold (audioProgress i) (fst (separateVocals e)) ?s4"
    have a3: "advances False i 0 0 ?s1 ?s3"
      using advances_trans [OF a2 advances_paths [of 0 0]] by simp
    have "advances False i 0 0 ?s3 ?s4"
      by (intro advancesI_ex) simp
    from advances_trans [OF a3 this] have a4: "advances False i 0 0 ?s1 ?s4" by simp
    from advances_trans [OF a4 grows_audio_ticks] have a5: "advances False i 0 0 ?s1 ?s5"
      by simp
    show ?thesis
    proof (cases "snd (separateVocals e)")
      case (Inl err)
      with Some True a5 show ?thesis by (simp add: audioBody_def Let_def)
    next
      case (Inr instr)
      let ?s6 = "updateSongPaths i
                   \<lparr>original_audio_path = None, instrumental_path = Some instr,
                    lyrics_path = None, video_path = None\<rparr> ?s5"
      have a6: "advances False i 0 0 ?s1 ?s6"
        using advances_trans [OF a5 advances_paths [of 0 0]] by simp
      obtain r s7 where L: "audioLyrics e i opts (song_title song) (song_artist song) instr ?s6
          = (r, s7)"
        by (cases "audioLyrics e i opts (song_title song) (song_artist song) instr ?s6")
      have a7: "advances False i 0 0 ?s1 s7"
        using advances_trans [OF a6 grows_audioLyrics
            [of i ?s6 e opts "song_title song" "song_artist song" instr]] L
        by simp
      have "advances False i 0 0 s7 (updateSongStatus i Ready (Some 100) s7)"
        by (intro advancesI_ex) simp
      from advances_trans [OF a7 this] have a8:
        "advances False i 0 0 ?s1 (updateSongStatus i Ready (Some 100) s7)" by simp
      from Some True Inr L a7 a8 show ?thesis
        by (simp add: audioBody_def Let_def split: sum.splits)
    qed
  qed
qed

lemma processAudio_begins:
  "prefix (trace s @ [AudioJobsSet i \<lparr>songId = i, job_options = opts\<rparr>,
                     SqlUpdateStatus i Processing (Some 0)])
     (trace (processAudio e i opts s))"
proof -
  let ?s1 = "registerAudioJob i opts s"
  let ?rs = "audioBody e i opts ?s1"
  have e: "prefix (trace (snd ?rs)) (trace (processAudio e i opts s))"
    using prefix_catchFailed [of ?rs i]
    by (simp add: processAudio_def releaseAudioJob_def)
  have "prefix (trace (updateSongStatus i Processing (Some 0) ?s1)) (trace (snd ?rs))"
    using grows_audioBody by (rule advances_prefix)
  with e have "prefix (trace (updateSongStatus i Processing (Some 0) ?s1))
      (trace (processAudio e i opts s))"
    by (rule prefix_trans [rotated])
  then show ?thesis
    by (simp add: registerAudioJob_def Let_def)
qed

text \<open>
  C1, as amended.  Neither function looks at its registry: in every state, so also
  when a job for the song is registered, a call overwrites the slot, starts a run
  (after the registration the first event is the write of status processing with
  progress \<open>5\<close> if the song exists, resp. \<open>0\<close>), and deletes the slot when this run
  settles.
\<close>

theorem second_submit_runs_again:
  shows "processingJobs (registerJob i opts s) i
           = Some \<lparr>songId = i, job_options = job_defaults opts\<rparr>
         \<and> prefix (trace s @ [JobsSet i \<lparr>songId = i, job_options = job_defaults opts\<rparr>])
             (trace (processKaraokeSong e i opts s))
         \<and> (getSong i s \<noteq> None \<longrightarrow>
              prefix (trace s @ [JobsSet i \<lparr>songId = i, job_options = job_defaults opts\<rparr>,
                                SqlUpdateStatus i Processing (Some 5)])
                (trace (processKaraokeSong e i opts s)))
         \<and> processingJobs (processKaraokeSong e i opts s) i = None
         \<and> last (trace (processKaraokeSong e i opts s)) = JobsDelete i
         \<and> audioJobs (registerAudioJob i opts s) i = Some \<lparr>songId = i, job_options = opts\<rparr>
         \<and> prefix (trace s @ [AudioJobsSet i \<lparr>songId = i, job_options = opts\<rparr>,
                              SqlUpdateStatus i Processing (Some 0)])
             (trace (processAudio e i opts s))
         \<and> audioJobs (processAudio e i opts s) i = None
         \<and> last (trace (processAudio e i opts s)) = AudioJobsDelete i"
  using processKaraokeSong_begins [of s i opts e] processAudio_begins [of s i opts e]
  by (simp add: processKaraokeSong_def processAudio_def releaseAudioJob_def
      registerAudioJob_def Let_def)

theorem second_submit_runs_again_witness:
  "processingJobs busy ''s1'' = Some \<lparr>songId = ''s1'', job_options = job_defaults routeOptions\<rparr>
   \<and> audioJobs busy ''s1'' = Some \<lparr>songId = ''s1'', job_options = routeOptions\<rparr>
   \<and> prefix (trace busy @ [JobsSet ''s1'' \<lparr>songId = ''s1'',
                                         job_options = job_defaults routeOptions\<rparr>,
                           SqlUpdateStatus ''s1'' Processing (Some 5)])
        (trace (processKaraokeSong quietEnv ''s1'' routeOptions busy))
   \<and> processingJobs (processKaraokeSong quietEnv ''s1'' routeOptions busy) ''s1'' = None
   \<and> audioJobs (processAudio quietEnv ''s1'' routeOptions busy) ''s1'' = None"
proof -
  have 1: "processingJobs busy ''s1''
      = Some \<lparr>songId = ''s1'', job_options = job_defaults routeOptions\<rparr>"
    and 2: "audioJobs busy ''s1'' = Some \<lparr>songId = ''s1'', job_options = routeOptions\<rparr>"
    and 3: "getSong ''s1'' busy \<noteq> None"
    by (simp_all add: busy_def mkState_def mkSong_def getSong_def joined_def)
  from second_submit_runs_again [of "''s1''" routeOptions busy quietEnv] 1 2 3 show ?thesis
    by simp
qed

text \<open>
  C1 as stated fails.  With a job registered for \<open>s1\<close> and the song at progress
  \<open>45\<close>, a second call changes the song (here to failed, progress \<open>0\<close>) and leaves
  the registry without the job.
\<close>

theorem second_submit_changes_state:
  "processingJobs busy ''s1'' \<noteq> None
   \<and> statusAndProgress busy = [(''s1'', Processing, 45)]
   \<and> statusAndProgress (processKaraokeSong quietEnv ''s1'' routeOptions busy)
       = [(''s1'', Failed, 0)]
   \<and> processingJobs (processKaraokeSong quietEnv ''s1'' routeOptions busy) ''s1'' = None
   \<and> take 2 (newEvents busy (processKaraokeSong quietEnv ''s1'' routeOptions busy))
       = [JobsSet ''s1'' \<lparr>songId = ''s1'', job_options = job_defaults routeOptions\<rparr>,
          SqlUpdateStatus ''s1'' Processing (Some 5)]
   \<and> audioJobs busy ''s1'' \<noteq> None
   \<and> statusAndProgress (processAudio quietEnv ''s1'' routeOptions busy)
       = [(''s1'', Failed, 0)]
   \<and> audioJobs (processAudio quietEnv ''s1'' routeOptions busy) ''s1'' = None"
  by (simp add: run_defs example_defs busy_def statusAndProgress_def processAudio_def
      registerAudioJob_def releaseAudioJob_def audioBody_def)

section \<open>Runs without lyrics, runs from the cache\<close>

lemma addsI_ex: "\<exists>evs. trace s' = trace s @ evs \<and> list_all P evs \<Longrightarrow> adds P s s'"
  by (auto simp: adds_def newEvents_def)

lemma addsD: "adds P s s' \<Longrightarrow> \<exists>evs. trace s' = trace s @ evs \<and> list_all P evs"
  by (auto simp: adds_def newEvents_def prefix_def)

lemma adds_trans:
  assumes "adds P s s'" and "adds P s' s''"
  shows "adds P s s''"
proof -
  from addsD [OF assms(1)] obtain evs where 1: "trace s' = trace s @ evs" "list_all P evs"
    by blast
  from addsD [OF assms(2)] obtain evs' where 2: "trace s'' = trace s' @ evs'" "list_all P evs'"
    by blast
  show ?thesis
    by (rule addsI_ex) (use 1 2 in auto)
qed

lemma adds_refl: "adds P s s"
  by (rule addsI_ex) simp

lemma adds_member:
  assumes "adds P s a" and "trace b = trace a @ evs" and "x \<in> set evs" and "adds P b c"
  shows "x \<in> set (newEvents s c)"
proof -
  from addsD [OF assms(1)] obtain e1 where 1: "trace a = trace s @ e1" by blast
  from addsD [OF assms(4)] obtain e2 where 2: "trace c = trace b @ e2" by blast
  show ?thesis
    using assms(2,3) by (simp add: newEvents_def 1 2)
qed

lemma truthy_None [simp]: "\<not> truthy None"
  by (simp add: truthy_def)

lemma acquire_outcome:
  "fst (acquire e i ttl art s) =
     (case findBestMatch e of
        Inl err \<Rightarrow> Inl err
      | Inr tr \<Rightarrow>
          if truthy (audioPathOf e) then Inr (the (audioPathOf e))
          else Inl (''Could not acquire audio for: '' @ art @ '' - '' @ ttl))"
proof (cases "findBestMatch e")
  case (Inl err)
  then show ?thesis by (simp add: acquire_def Let_def)
next
  case (Inr torrentResult)
  show ?thesis
  proof (cases torrentResult)
    case None
    with Inr show ?thesis
      by (simp add: acquire_def audioPathOf_def Let_def)
  next
    case (Some magnet)
    show ?thesis
    proof (cases "downloadAudio e")
      case (Resolved ps r)
      with Inr Some show ?thesis
        by (simp add: acquire_def audioPathOf_def Let_def)
    next
      case (Rejected ps err)
      with Inr Some show ?thesis
        by (simp add: acquire_def audioPathOf_def Let_def)
    next
      case (TimedOut ps)
      with Inr Some show ?thesis
        by (simp add: acquire_def audioPathOf_def Let_def)
    qed
  qed
qed

lemma noLyrics_ticks [simp]:
  "list_all noLyrics (map (\<lambda>p. SqlUpdateStatus i Processing (Some (f p))) ps)"
  by (induction ps) simp_all

lemma adds_acquire: "adds noLyrics s (snd (acquire e i ttl art s))"
proof (cases "findBestMatch e")
  case (Inl err)
  then show ?thesis
    by (intro addsI_ex) (simp add: acquire_def Let_def)
next
  case (Inr torrentResult)
  show ?thesis
  proof (cases torrentResult)
    case None
    with Inr show ?thesis
      by (intro addsI_ex) (simp add: acquire_def Let_def trace_updateSongPaths truthy_def)
  next
    case (Some magnet)
    show ?thesis
    proof (cases "downloadAudio e")
      case (Resolved ps r)
      with Inr Some show ?thesis
        by (intro addsI_ex) (simp add: acquire_def Let_def trace_updateSongPaths)
    next
      case (Rejected ps err)
      with Inr Some show ?thesis
        by (intro addsI_ex) (simp add: acquire_def Let_def trace_updateSongPaths truthy_def)
    next
      case (TimedOut ps)
      with Inr Some show ?thesis
        by (intro addsI_ex) (simp add: acquire_def Let_def trace_updateSongPaths truthy_def)
    qed
  qed
qed

lemma youtube_outcome: "map_option fst (fst (youtube e i ttl art s)) = karaokeVideoOf e"
  by (simp add: youtube_def karaokeVideoOf_def Let_def split: sum.splits option.splits)

lemma adds_youtube: "adds noLyrics s (snd (youtube e i ttl art s))"
  by (intro addsI_ex) (simp add: snd_youtube)

lemma separate_outcome: "fst (separate e i opts audioPath s) = snd (separateVocals e)"
  by (simp add: separate_def Let_def split: sum.splits)

lemma adds_separation_ticks: "adds noLyrics s (fold (separationTick e i) ts s)"
proof (induction ts arbitrary: s)
  case Nil
  then show ?case by (simp add: adds_refl)
next
  case (Cons t ts)
  have "adds noLyrics s (separationTick e i t s)"
    by (cases t) (auto intro!: addsI_ex simp: separationTick_simps)
  from adds_trans [OF this Cons] show ?case by simp
qed

lemma adds_separate: "adds noLyrics s (snd (separate e i opts audioPath s))"
proof -
  let ?s1 = "emit (Invoke (SeparateVocals audioPath opts))
                 (updateSongStatus i Processing (Some 45) s)"
  let ?s2 = "fold (separationTick e i) (fst (separateVocals e)) ?s1"
  have "adds noLyrics s ?s1"
    by (intro addsI_ex) simp
  from adds_trans [OF this adds_separation_ticks] have a: "adds noLyrics s ?s2" .
  have "adds noLyrics ?s2 (updateSongPaths i
                \<lparr>original_audio_path = None, instrumental_path = Some instr,
                 lyrics_path = None, video_path = None\<rparr> ?s2)" for instr
    by (intro addsI_ex) (simp add: trace_updateSongPaths)
  from adds_trans [OF a this] a show ?thesis
    by (simp add: separate_def Let_def split: sum.splits)
qed

lemma syncLyrics_none:
  assumes "\<not> truthy (fetchLyrics e)"
  shows "fst (syncLyrics e i ttl art instr s) = Inr None"
    and "adds noLyrics s (snd (syncLyrics e i ttl art instr s))"
  using assms by (auto intro!: addsI_ex simp: syncLyrics_def Let_def)

lemma compose_without_lyrics:
  assumes "othersSucceed e" and "snd (separateVocals e) = Inr instr"
  shows "\<exists>fin. fst (compose e i instr (karaokeVideoOf e) None s) = Inr fin"
    and "adds noLyrics s (snd (compose e i instr (karaokeVideoOf e) None s))"
    and "\<exists>evs. trace (snd (compose e i instr (karaokeVideoOf e) None s)) = trace s @ evs
           \<and> Invoke (composeCall e) \<in> set evs"
  using assms
  by (auto intro!: addsI_ex
      simp: compose_def othersSucceed_def baseVideo_def composeCall_def Let_def truthy_def
      split: sum.splits if_splits)

lemma cacheHit_frame:
  "processed_cache s' = processed_cache s \<Longrightarrow> cacheHit e opts song s' = cacheHit e opts song s"
  by (simp add: cacheHit_def checkCache_def Let_def split: option.splits)

lemma adds_checkCache: "adds noLyrics s (snd (checkCache fs t ttl art q s))"
proof (cases "find (\<lambda>r. cache_key r = generateCacheKey ttl art q) (processed_cache s)")
  case None
  then show ?thesis
    by (simp add: checkCache_no_row adds_refl)
next
  case (Some row)
  then show ?thesis
    by (intro addsI_ex) (simp add: checkCache_row trace_touch trace_remove)
qed

lemma trace_addToCache_lyrics:
  "\<exists>row. trace (snd (addToCache fs t ttl art q fl ytid s)) = trace s @ [SqlInsertCache row]
      \<and> c_lyrics_path row = orNull (lyrics fl)"
  by (simp add: addToCache_def Let_def)

lemma songs_addToCache [simp]: "songs (snd (addToCache fs t ttl art q fl ytid s)) = songs s"
  by (simp add: addToCache_def Let_def)

lemma ready_rows:
  "list_all (\<lambda>r. song_id r = i \<longrightarrow> status r = Ready \<and> processing_progress r = 100)
     (songs (updateSongStatus i Ready (Some 100) s))"
  unfolding songs_updateSongStatus
  by (rule list_all_map_if) (simp_all add: set_status_def)

lemma pipeline_without_lyrics:
  assumes ok: "othersSucceed e" and nolyr: "\<not> truthy (fetchLyrics e)"
  shows "fst (pipeline e i opts ttl art s) = Inr ()
    \<and> adds noLyrics s (snd (pipeline e i opts ttl art s))
    \<and> Invoke (composeCall e) \<in> set (newEvents s (snd (pipeline e i opts ttl art s)))
    \<and> list_all (\<lambda>r. song_id r = i \<longrightarrow> status r = Ready \<and> processing_progress r = 100)
         (songs (snd (pipeline e i opts ttl art s)))"
proof -
  from ok have ap: "truthy (audioPathOf e)"
    by (simp add: othersSucceed_def)
  from ok obtain instr where sv: "snd (separateVocals e) = Inr instr"
    by (auto simp: othersSucceed_def split: sum.splits)
  from ap obtain tr where fb: "findBestMatch e = Inr tr"
    by (cases "findBestMatch e") (simp_all add: audioPathOf_def)
  obtain s1 where A: "acquire e i ttl art s = (Inr (the (audioPathOf e)), s1)"
    using acquire_outcome [of e i ttl art s] ap fb
    by (cases "acquire e i ttl art s") simp
  have a1: "adds noLyrics s s1"
    using adds_acquire [of s e i ttl art] A by simp
  obtain y s2 where Y: "youtube e i ttl art s1 = (y, s2)"
    by (cases "youtube e i ttl art s1")
  have ky: "map_option fst y = karaokeVideoOf e"
    using youtube_outcome [of e i ttl art s1] Y by simp
  have a2: "adds noLyrics s s2"
    using adds_trans [OF a1 adds_youtube [of s1 e i ttl art]] Y by simp
  obtain s3 where B: "separate e i opts (the (audioPathOf e)) s2 = (Inr instr, s3)"
    using separate_outcome [of e i opts "the (audioPathOf e)" s2] sv
    by (cases "separate e i opts (the (audioPathOf e)) s2") simp
  have a3: "adds noLyrics s s3"
    using adds_trans [OF a2 adds_separate [of s2 e i opts "the (audioPathOf e)"]] B by simp
  obtain s4 where C: "syncLyrics e i ttl art instr s3 = (Inr None, s4)"
    using syncLyrics_none(1) [OF nolyr, of i ttl art instr s3]
    by (cases "syncLyrics e i ttl art instr s3") simp
  have a4: "adds noLyrics s s4"
    using adds_trans [OF a3 syncLyrics_none(2) [OF nolyr, of s3 i ttl art instr]] C by simp
  from compose_without_lyrics(1) [OF ok sv, of i s4] obtain fin s5
    where D: "compose e i instr (karaokeVideoOf e) None s4 = (Inr fin, s5)"
    by (cases "compose e i instr (karaokeVideoOf e) None s4") auto
  have a45: "adds noLyrics s4 s5"
    using compose_without_lyrics(2) [OF ok sv, of s4 i] D by simp
  from compose_without_lyrics(3) [OF ok sv, of i s4] D obtain evs
    where cc: "trace s5 = trace s4 @ evs" "Invoke (composeCall e) \<in> set evs"
    by auto
  let ?s6 = "updateSongPaths i
               \<lparr>original_audio_path = None, instrumental_path = None,
                lyrics_path = None, video_path = Some fin\<rparr> s5"
  let ?s7 = "snd (addToCache (fs_cache e) (now e) ttl art (quality opts)
                    \<lparr>original = Some (the (audioPathOf e)), instrumental = Some instr,
                     lyrics = orNull None, video = Some fin\<rparr>
                    (orNull (map_option snd y)) ?s6)"
  let ?s8 = "updateSongStatus i Ready (Some 100) ?s7"
  let ?end = "snd (pipeline e i opts ttl art s)"
  have e: "?end = ?s8 \<or> (\<exists>p. ?end = emit (Invoke (Unlink p)) ?s8)"
    using A Y ky B C D by (auto simp add: pipeline_def Let_def)
  have r: "fst (pipeline e i opts ttl art s) = Inr ()"
    using A Y ky B C D by (simp add: pipeline_def Let_def)
  have a56: "adds noLyrics s5 ?s6"
    by (intro addsI_ex) (simp add: trace_updateSongPaths)
  have a67: "adds noLyrics ?s6 ?s7"
    using trace_addToCache_lyrics [of "fs_cache e" "now e" ttl art "quality opts"
        "\<lparr>original = Some (the (audioPathOf e)), instrumental = Some instr,
          lyrics = orNull None, video = Some fin\<rparr>" "orNull (map_option snd y)" ?s6]
    by (intro addsI_ex) (auto simp: orNull_def)
  have a78: "adds noLyrics ?s7 ?s8"
    by (intro addsI_ex) simp
  have a8e: "adds noLyrics ?s8 ?end"
    using e by (auto intro!: addsI_ex)
  have a5e: "adds noLyrics s5 ?end"
    using adds_trans [OF adds_trans [OF adds_trans [OF a56 a67] a78] a8e] .
  have 1: "adds noLyrics s ?end"
    using adds_trans [OF adds_trans [OF a4 a45] a5e] .
  have 2: "Invoke (composeCall e) \<in> set (newEvents s ?end)"
    using a4 cc a5e by (rule adds_member)
  have 3: "list_all (\<lambda>r. song_id r = i \<longrightarrow> status r = Ready \<and> processing_progress r = 100)
         (songs ?end)"
    using e ready_rows [of i ?s7] by auto
  from r 1 2 3 show ?thesis by simp
qed

text \<open>
  C5, as amended.  When no lyrics are found (\<open>fetchLyrics\<close> returns nothing; it
  catches the failures of its sources itself) and acquisition, separation and
  composition succeed, the run does not throw, the song ends ready at \<open>100\<close>, no
  event of the run touches lyrics or reports a failure, and the video is composed by
  the call that takes no lyrics.
\<close>

theorem run_without_lyrics:
  assumes song: "getSong i s = Some song"
    and miss: "\<not> cacheUsed e opts song s"
    and ok: "othersSucceed e"
    and nolyr: "\<not> truthy (fetchLyrics e)"
  shows "fst (tryBody e i opts (registerJob i opts s)) = Inr ()
    \<and> list_all (\<lambda>r. song_id r = i \<longrightarrow> status r = Ready \<and> processing_progress r = 100)
         (songs (processKaraokeSong e i opts s))
    \<and> list_all noLyrics (newEvents s (processKaraokeSong e i opts s))
    \<and> Invoke (composeCall e) \<in> set (newEvents s (processKaraokeSong e i opts s))"
proof -
  let ?s0 = "registerJob i opts s"
  let ?s1 = "updateSongStatus i Processing (Some 5) ?s0"
  let ?ttl = "song_title song" and ?art = "song_artist song"
  obtain cached s2 where C: "checkCache (fs_lookup e) (now e) ?ttl ?art (quality opts) ?s1
      = (cached, s2)"
    by (cases "checkCache (fs_lookup e) (now e) ?ttl ?art (quality opts) ?s1")
  have "cached = cacheHit e opts song ?s1"
    using C by (simp add: cacheHit_def)
  also have "\<dots> = cacheHit e opts song s"
    by (rule cacheHit_frame) simp
  finally have m: "cached = None \<or> useCache opts \<noteq> Some True"
    using miss by (auto simp: cacheUsed_def)
  let ?rs = "tryBody e i opts ?s0"
  have t: "?rs = pipeline e i opts ?ttl ?art s2"
    using song C m by (auto simp: tryBody_def Let_def)
  have a01: "adds noLyrics s ?s1"
    by (intro addsI_ex) simp
  have a12: "adds noLyrics ?s1 s2"
    using adds_checkCache [of ?s1 "fs_lookup e" "now e" ?ttl ?art "quality opts"] C by simp
  note p = pipeline_without_lyrics [OF ok nolyr, of i opts ?ttl ?art s2]
  let ?end = "processKaraokeSong e i opts s"
  have f: "?end = releaseJob i (snd ?rs)"
    using p t by (simp add: processKaraokeSong_def catchFailed_def)
  have ae: "adds noLyrics (snd ?rs) ?end"
    unfolding f by (intro addsI_ex) simp
  have a02: "adds noLyrics s s2"
    using adds_trans [OF a01 a12] .
  have 1: "fst ?rs = Inr ()"
    using p t by simp
  have 2: "list_all (\<lambda>r. song_id r = i \<longrightarrow> status r = Ready \<and> processing_progress r = 100)
         (songs ?end)"
    using p t f by simp
  have 3: "adds noLyrics s ?end"
    using adds_trans [OF adds_trans [OF a02 conjunct1 [OF conjunct2 [OF p]]]] ae t by simp
  from addsD [OF conjunct1 [OF conjunct2 [OF p]]] obtain evs
    where ev: "trace (snd (pipeline e i opts ?ttl ?art s2)) = trace s2 @ evs" by blast
  have "Invoke (composeCall e) \<in> set evs"
    using p ev by (simp add: newEvents_def)
  with a02 ev have 4: "Invoke (composeCall e) \<in> set (newEvents s ?end)"
    using ae t by (intro adds_member [where a = s2 and b = "snd ?rs" and evs = evs]) simp_all
  from 1 2 3 4 show ?thesis
    by (simp add: adds_def)
qed

theorem run_without_lyrics_witness:
  "getSong ''s1'' oneQueued \<noteq> None
   \<and> othersSucceed goodEnv \<and> \<not> truthy (fetchLyrics goodEnv)
   \<and> statusAndProgress (processKaraokeSong goodEnv ''s1'' routeOptions oneQueued)
       = [(''s1'', Ready, 100)]
   \<and> composeCall goodEnv = CreateLyricVideo [] 300000 ''/output/Queen/generated_karaoke.mp4''
   \<and> Invoke (composeCall goodEnv)
       \<in> set (newEvents oneQueued (processKaraokeSong goodEnv ''s1'' routeOptions oneQueued))"
proof -
  have 1: "getSong ''s1'' oneQueued = Some (mkSong ''s1'' Queued 0 1)"
    by (simp add: getSong_def joined_def example_defs)
  have 2: "\<not> cacheUsed goodEnv routeOptions (mkSong ''s1'' Queued 0 1) oneQueued"
    by (simp add: cacheUsed_def routeOptions_def)
  have 3: "othersSucceed goodEnv"
    by (simp add: othersSucceed_def audioPathOf_def baseVideo_def karaokeVideoOf_def
        goodEnv_def quietEnv_def truthy_def)
  have 4: "\<not> truthy (fetchLyrics goodEnv)"
    by (simp add: goodEnv_def quietEnv_def)
  have 5: "composeCall goodEnv
      = CreateLyricVideo [] 300000 ''/output/Queen/generated_karaoke.mp4''"
    by (simp add: composeCall_def baseVideo_def karaokeVideoOf_def goodEnv_def quietEnv_def
        dirname_def path_join_def)
  have 6: "statusAndProgress (processKaraokeSong goodEnv ''s1'' routeOptions oneQueued)
       = [(''s1'', Ready, 100)]"
    by (simp add: run_defs example_defs goodEnv_def statusAndProgress_def dirname_def
        path_join_def)
  from run_without_lyrics [OF 1 2 3 4] 1 3 4 5 6 show ?thesis
    by simp
qed

text \<open>
  C5 as stated fails.  Lyrics are found and their synchronization throws: the run
  fails, although every other stage would succeed (as the run of \<open>syncOkEnv\<close>
  shows).
\<close>

theorem sync_failure_is_fatal:
  "fetchLyrics syncFailEnv = Some ''Is this the real life?''
   \<and> smartSynchronize syncFailEnv = Inl ''ffprobe failed''
   \<and> othersSucceed syncFailEnv
   \<and> statusAndProgress (processKaraokeSong syncFailEnv ''s1'' routeOptions oneQueued)
       = [(''s1'', Failed, 0)]
   \<and> filter (\<lambda>ev. case ev of ConsoleError j err \<Rightarrow> True | _ \<Rightarrow> False)
        (trace (processKaraokeSong syncFailEnv ''s1'' routeOptions oneQueued))
       = [ConsoleError ''s1'' ''ffprobe failed'']
   \<and> statusAndProgress (processKaraokeSong syncOkEnv ''s1'' routeOptions oneQueued)
       = [(''s1'', Ready, 100)]"
  by (simp add: run_defs example_defs goodEnv_def syncFailEnv_def syncOkEnv_def
      statusAndProgress_def dirname_def path_join_def othersSucceed_def audioPathOf_def
      baseVideo_def karaokeVideoOf_def)

lemma adds_checkCache_any:
  assumes "\<And>k t'. P (SqlTouchCache k t')" and "\<And>k. P (SqlDeleteCache k)"
  shows "adds P s (snd (checkCache fs t ttl art q s))"
proof (cases "find (\<lambda>r. cache_key r = generateCacheKey ttl art q) (processed_cache s)")
  case None
  then show ?thesis
    by (simp add: checkCache_no_row adds_refl)
next
  case (Some row)
  then show ?thesis
    using assms by (intro addsI_ex) (simp add: checkCache_row trace_touch trace_remove)
qed

lemma songs_checkCache: "songs (snd (checkCache fs t ttl art q s)) = songs s"
proof (cases "find (\<lambda>r. cache_key r = generateCacheKey ttl art q) (processed_cache s)")
  case None
  then show ?thesis by (simp add: checkCache_no_row)
next
  case (Some row)
  then show ?thesis by (simp add: checkCache_row rest_touch rest_remove)
qed

lemma hit_mandatory_truthy:
  assumes "fst (checkCache fs t ttl art q s) = Some hit"
  shows "truthy (instrumental (files hit)) \<and> truthy (video (files hit))"
proof (cases "find (\<lambda>r. cache_key r = generateCacheKey ttl art q) (processed_cache s)")
  case None
  with assms show ?thesis by (simp add: checkCache_no_row)
next
  case (Some row)
  with assms have "mandatory_present fs row" and "hit = hit_of fs (generateCacheKey ttl art q) row"
    by (auto simp: checkCache_row split: if_splits)
  then show ?thesis
    by (simp add: hit_of_def truthy_verified mandatory_present_def)
qed

lemma copied_rows:
  assumes "truthy (instrumental_path p)" and "truthy (video_path p)"
  shows "list_all (\<lambda>r. song_id r = i \<longrightarrow>
            status r = Ready \<and> processing_progress r = 100
            \<and> instrumental_path r = instrumental_path p \<and> video_path r = video_path p)
          (songs (updateSongStatus i Ready (Some 100) (updateSongPaths i p s)))"
proof -
  have "songs (updateSongStatus i Ready (Some 100) (updateSongPaths i p s))
      = map (\<lambda>r. if song_id r = i then set_status Ready (Some 100) (set_paths p r) else r)
          (songs s)"
    using assms by (simp add: updateSongStatus_def updateSongPaths_def emit_def set_paths_def)
  then show ?thesis
    using assms
    by (simp only:) (rule list_all_map_if, simp_all add: set_status_def set_paths_def)
qed

text \<open>
  What the code does when line 53 uses the hit: the run calls no collaborator, does
  not throw, and leaves the song ready at \<open>100\<close> with the instrumental and video
  paths of the cache entry.
\<close>

theorem cache_hit_used:
  assumes song: "getSong i s = Some song"
    and hit: "cacheHit e opts song s = Some hit"
    and use: "useCache opts = Some True"
  shows "fst (tryBody e i opts (registerJob i opts s)) = Inr ()
    \<and> list_all (\<lambda>ev. \<not> isInvoke ev) (newEvents s (processKaraokeSong e i opts s))
    \<and> list_all (\<lambda>r. song_id r = i \<longrightarrow>
            status r = Ready \<and> processing_progress r = 100
            \<and> instrumental_path r = instrumental (files hit)
            \<and> video_path r = video (files hit))
         (songs (processKaraokeSong e i opts s))"
proof -
  let ?s0 = "registerJob i opts s"
  let ?s1 = "updateSongStatus i Processing (Some 5) ?s0"
  let ?ttl = "song_title song" and ?art = "song_artist song"
  let ?P = "\<lambda>ev. \<not> isInvoke ev"
  obtain cached s2 where C: "checkCache (fs_lookup e) (now e) ?ttl ?art (quality opts) ?s1
      = (cached, s2)"
    by (cases "checkCache (fs_lookup e) (now e) ?ttl ?art (quality opts) ?s1")
  have "cached = cacheHit e opts song ?s1"
    using C by (simp add: cacheHit_def)
  also have "\<dots> = cacheHit e opts song s"
    by (rule cacheHit_frame) simp
  finally have c: "cached = Some hit"
    using hit by simp
  have tr: "truthy (instrumental (files hit))" "truthy (video (files hit))"
    using hit_mandatory_truthy [of "fs_lookup e" "now e" ?ttl ?art "quality opts" ?s1 hit] C c
    by simp_all
  let ?p = "\<lparr>original_audio_path = original (files hit),
             instrumental_path = instrumental (files hit),
             lyrics_path = lyrics (files hit), video_path = video (files hit)\<rparr>"
  let ?s4 = "updateSongStatus i Ready (Some 100) (updateSongPaths i ?p s2)"
  let ?rs = "tryBody e i opts ?s0"
  have t: "?rs = (Inr (), ?s4)"
    using song C c use by (simp add: tryBody_def Let_def)
  have f: "processKaraokeSong e i opts s = releaseJob i ?s4"
    using t by (simp add: processKaraokeSong_def catchFailed_def)
  have a01: "adds ?P s ?s1"
    by (intro addsI_ex) simp
  have a12: "adds ?P ?s1 s2"
    using adds_checkCache_any [of ?P ?s1 "fs_lookup e" "now e" ?ttl ?art "quality opts"] C
    by simp
  have a24: "adds ?P s2 (releaseJob i ?s4)"
    by (intro addsI_ex) (simp add: trace_updateSongPaths)
  have 2: "adds ?P s (processKaraokeSong e i opts s)"
    unfolding f using adds_trans [OF adds_trans [OF a01 a12] a24] .
  have 3: "list_all (\<lambda>r. song_id r = i \<longrightarrow>
            status r = Ready \<and> processing_progress r = 100
            \<and> instrumental_path r = instrumental (files hit)
            \<and> video_path r = video (files hit))
         (songs (processKaraokeSong e i opts s))"
    unfolding f using copied_rows [of ?p i s2] tr by simp
  from t 2 3 show ?thesis
    by (simp add: adds_def)
qed

theorem cache_hit_used_witness:
  "getSong ''s1'' cachedState \<noteq> None
   \<and> cacheHit cacheEnv (highOptions\<lparr>useCache := Some True\<rparr>) (mkSong ''s1'' Queued 0 1)
        cachedState \<noteq> None
   \<and> list_all (\<lambda>ev. \<not> isInvoke ev)
        (newEvents cachedState
          (processKaraokeSong cacheEnv ''s1'' (highOptions\<lparr>useCache := Some True\<rparr>) cachedState))
   \<and> statusAndProgress
        (processKaraokeSong cacheEnv ''s1'' (highOptions\<lparr>useCache := Some True\<rparr>) cachedState)
       = [(''s1'', Ready, 100)]"
proof -
  let ?o = "highOptions\<lparr>useCache := Some True\<rparr>"
  have 1: "getSong ''s1'' cachedState = Some (mkSong ''s1'' Queued 0 1)"
    by (simp add: getSong_def joined_def cachedState_def mkState_def mkSong_def)
  have 2: "cacheHit cacheEnv ?o (mkSong ''s1'' Queued 0 1) cachedState
      = Some (hit_of fsFull (generateCacheKey ''Bohemian Rhapsody'' ''Queen'' ''high'') cachedRow)"
    by (simp add: cacheHit_def cacheEnv_def quietEnv_def highOptions_def routeOptions_def
        hit_of_def cache_example_defs)
  have 3: "useCache ?o = Some True"
    by simp
  have 4: "statusAndProgress (processKaraokeSong cacheEnv ''s1'' ?o cachedState)
       = [(''s1'', Ready, 100)]"
    by (simp add: run_defs cachedState_def cachedRow_def mkState_def mkSong_def fsFull_def
        has_key_def removeFromCache_def updateLastAccessed_def verified_def
        cacheEnv_def quietEnv_def highOptions_def routeOptions_def statusAndProgress_def)
  from cache_hit_used [OF 1 2 3] 1 2 4 show ?thesis
    by simp
qed

text \<open>
  C6 fails on the code.  The cache holds a valid entry for the song and the caller
  does not name \<^verbatim>\<open>useCache\<close>: the job's options say \<open>true\<close> (line 30), line 53 reads
  the caller's options, the hit is dropped, the torrent search is called, and here
  the run fails for want of audio.
\<close>

theorem cache_hit_ignored:
  "cacheHit cacheEnv highOptions (mkSong ''s1'' Queued 0 1) cachedState \<noteq> None
   \<and> useCache highOptions = None
   \<and> useCache (job_defaults highOptions) = Some True
   \<and> Invoke (FindBestMatch ''Bohemian Rhapsody'' ''Queen'')
       \<in> set (newEvents cachedState
                (processKaraokeSong cacheEnv ''s1'' highOptions cachedState))
   \<and> statusAndProgress (processKaraokeSong cacheEnv ''s1'' highOptions cachedState)
       = [(''s1'', Failed, 0)]"
  by (simp add: run_defs cachedState_def cachedRow_def mkState_def mkSong_def fsFull_def
      has_key_def removeFromCache_def updateLastAccessed_def verified_def
      cacheEnv_def quietEnv_def highOptions_def routeOptions_def statusAndProgress_def
      cacheHit_def)

section \<open>What the queue routes keep\<close>

lemma joined_wellFormed: "wellFormed s \<Longrightarrow> joined s = songs s"
  by (simp add: wellFormed_def joined_def list_all_iff)

lemma playing_updateSongStatus:
  "playing (updateSongStatus i st p s) =
     filter (\<lambda>r. status r = Playing)
       (map (\<lambda>r. if song_id r = i then set_status st p r else r) (songs s))"
  by (simp add: playing_def songs_updateSongStatus)

lemma filter_unique:
  assumes "distinct (map f xs)" and "x \<in> set xs"
  shows "filter (\<lambda>r. f r = f x) xs = [x]"
  using assms
proof (induction xs)
  case Nil
  then show ?case by simp
next
  case (Cons a xs)
  show ?case
  proof (cases "a = x")
    case True
    with Cons.prems have "f x \<notin> f ` set xs" by simp
    then have "\<forall>r\<in>set xs. f r \<noteq> f x" by (metis imageI)
    then have "filter (\<lambda>r. f r = f x) xs = []" by (simp add: filter_empty_conv)
    with True show ?thesis by simp
  next
    case False
    with Cons.prems have "x \<in> set xs" "f a \<noteq> f x" by auto
    with Cons show ?thesis by simp
  qed
qed

lemma status_set_status [simp]: "status (set_status st p r) = st"
  by (simp add: set_status_def split: option.splits)

lemma song_id_set_status [simp]: "song_id (set_status st p r) = song_id r"
  by (simp add: set_status_def split: option.splits)

lemma current_completed:
  assumes "length (playing s) \<le> 1" and "wellFormed s"
  shows "playing (case getCurrentSong s of
                    Some currentSong \<Rightarrow> updateSongStatus (song_id currentSong) Completed None s
                  | None \<Rightarrow> s) = []"
proof (cases "getCurrentSong s")
  case None
  then have "\<forall>r\<in>set (songs s). status r \<noteq> Playing"
    using assms(2) by (simp add: getCurrentSong_def joined_wellFormed find_None_iff)
  with None show ?thesis
    by (simp add: playing_def filter_empty_conv)
next
  case (Some cur)
  then have c: "cur \<in> set (playing s)"
    using assms(2)
    by (auto simp: getCurrentSong_def joined_wellFormed playing_def find_Some_iff)
  with assms(1) have p: "playing s = [cur]"
    by (cases "playing s") auto
  have "status r \<noteq> Playing" if "r \<in> set (songs s)" "song_id r \<noteq> song_id cur" for r
  proof
    assume "status r = Playing"
    with that(1) have "r \<in> set (playing s)" by (simp add: playing_def)
    with p that(2) show False by simp
  qed
  then show ?thesis
    using Some by (auto simp: playing_updateSongStatus filter_empty_conv)
qed

lemma promote_ids:
  assumes "\<forall>r\<in>set xs. status r \<noteq> Playing"
  shows "map song_id (filter (\<lambda>r. status r = Playing)
            (map (\<lambda>r. if song_id r = i then set_status Playing p r else r) xs))
         = filter (\<lambda>j. j = i) (map song_id xs)"
  using assms by (induction xs) auto

text \<open>
  The start route keeps the constraint of C7: in a well-formed state with at most one
  song playing, a successful start leaves exactly the started song playing.
\<close>

theorem startSong_one_playing:
  assumes wf: "wellFormed s" and one: "length (playing s) \<le> 1"
    and ok: "startSong i s = (Ok200 None, s')"
  shows "map song_id (playing s') = [i]"
proof -
  let ?s1 = "case getCurrentSong s of
               Some currentSong \<Rightarrow> updateSongStatus (song_id currentSong) Completed None s
             | None \<Rightarrow> s"
  from ok obtain song where g: "getSong i s = Some song"
    and s': "s' = updateSongStatus i Playing None ?s1"
    by (auto simp: startSong_def Let_def split: if_splits option.splits)
  from g wf have m: "song \<in> set (songs s)" and id: "song_id song = i"
    by (auto simp: getSong_def joined_wellFormed find_Some_iff)
  have ids: "map song_id (songs ?s1) = map song_id (songs s)"
    by (cases "getCurrentSong s") (simp_all add: songs_updateSongStatus comp_def)
  have none: "playing ?s1 = []"
    using one wf by (rule current_completed)
  then have np: "\<forall>r\<in>set (songs ?s1). status r \<noteq> Playing"
    by (simp add: playing_def filter_empty_conv)
  have "map song_id (playing s')
      = filter (\<lambda>j. j = i) (map song_id (songs ?s1))"
    unfolding s' playing_updateSongStatus using np by (rule promote_ids)
  also have "\<dots> = map song_id (filter (\<lambda>r. song_id r = song_id song) (songs s))"
    by (simp add: ids id filter_map comp_def)
  also have "\<dots> = [i]"
    using filter_unique [of song_id "songs s" song] wf m id by (simp add: wellFormed_def)
  finally show ?thesis .
qed

theorem startSong_one_playing_witness:
  "wellFormed trio \<and> playing trio = []
   \<and> fst (startSong ''A'' trio) = Ok200 None
   \<and> map song_id (playing (snd (startSong ''A'' trio))) = [''A'']"
proof -
  have 1: "wellFormed trio"
    by (simp add: wellFormed_def trio_def mkState_def mkSong_def)
  have 2: "playing trio = []"
    by (simp add: playing_def trio_def mkState_def mkSong_def)
  have 3: "fst (startSong ''A'' trio) = Ok200 None"
    by (simp add: startSong_def getSong_def joined_def trio_def mkState_def mkSong_def)
  then have 4: "startSong ''A'' trio = (Ok200 None, snd (startSong ''A'' trio))"
    by (metis prod.collapse)
  from startSong_one_playing [OF 1 _ 4] 1 2 3 show ?thesis by simp
qed

lemma find_sorted_least:
  assumes "sorted (map f xs)" and "find P xs = Some x"
  shows "\<forall>y\<in>set xs. P y \<longrightarrow> f x \<le> f y"
  using assms by (induction xs) (auto split: if_splits)

text \<open>
  The completion route promotes the earliest ready song: when it answers with a next
  song, this is a ready song of the joined table, no ready song was requested
  earlier, and it is set playing after the given song was set completed.
\<close>

theorem completeSong_promotes_earliest:
  assumes "completeSong i s = (Ok200 (Some j), s')"
  shows "\<exists>n\<in>set (songs (updateSongStatus i Completed None s)).
           song_id n = j \<and> status n = Ready \<and> users s (user_id n) \<noteq> None
           \<and> (\<forall>r\<in>set (songs (updateSongStatus i Completed None s)).
                 status r = Ready \<and> users s (user_id r) \<noteq> None
                   \<longrightarrow> requested_at n \<le> requested_at r)
           \<and> s' = updateSongStatus j Playing None (updateSongStatus i Completed None s)"
proof -
  let ?s1 = "updateSongStatus i Completed None s"
  from assms obtain n where f: "find (\<lambda>song. status song = Ready) (getQueue ?s1) = Some n"
    and j: "orNull (Some (song_id n)) = Some j"
    and s': "s' = updateSongStatus (song_id n) Playing None ?s1"
    by (auto simp: completeSong_def Let_def split: if_splits option.splits)
  from j have id: "song_id n = j"
    by (simp add: orNull_def split: if_splits)
  from f have n: "n \<in> set (getQueue ?s1)" "status n = Ready"
    by (auto simp: find_Some_iff)
  then have m: "n \<in> set (songs ?s1)" "users s (user_id n) \<noteq> None"
    by (auto simp: getQueue_def joined_def)
  have "sorted (map requested_at (getQueue ?s1))"
    by (simp add: getQueue_def)
  from find_sorted_least [OF this f]
  have least: "\<forall>y\<in>set (getQueue ?s1). status y = Ready \<longrightarrow> requested_at n \<le> requested_at y" .
  have "requested_at n \<le> requested_at r"
    if "r \<in> set (songs ?s1)" "status r = Ready" "users s (user_id r) \<noteq> None" for r
  proof -
    from that have "r \<in> set (getQueue ?s1)"
      by (simp add: getQueue_def joined_def)
    with least that(2) show ?thesis by simp
  qed
  with m n(2) id s' show ?thesis by blast
qed

theorem completeSong_promotes_earliest_witness:
  "completeSong ''A'' (snd (startSong ''A'' trio))
     = (Ok200 (Some ''B''),
        updateSongStatus ''B'' Playing None
          (updateSongStatus ''A'' Completed None (snd (startSong ''A'' trio))))
   \<and> map status (songs (snd (completeSong ''A'' (snd (startSong ''A'' trio)))))
       = [Completed, Playing, Ready]"
proof -
  have 1: "completeSong ''A'' (snd (startSong ''A'' trio))
     = (Ok200 (Some ''B''),
        updateSongStatus ''B'' Playing None
          (updateSongStatus ''A'' Completed None (snd (startSong ''A'' trio))))"
    by (simp add: trio_def mkState_def mkSong_def startSong_def completeSong_def getSong_def
        getCurrentSong_def getQueue_def joined_def updateSongStatus_def emit_def set_status_def
        orNull_def truthy_def)
  have 2: "map status (songs (snd (completeSong ''A'' (snd (startSong ''A'' trio)))))
       = [Completed, Playing, Ready]"
    by (simp add: trio_def mkState_def mkSong_def startSong_def completeSong_def getSong_def
        getCurrentSong_def getQueue_def joined_def updateSongStatus_def emit_def set_status_def
        orNull_def truthy_def)
  from completeSong_promotes_earliest [OF 1] 1 2 show ?thesis by simp
qed

section \<open>Which failures make the body throw\<close>

lemma tryBody_miss:
  assumes song: "getSong i s = Some song" and miss: "\<not> cacheUsed e opts song s"
  shows "\<exists>s2. tryBody e i opts (registerJob i opts s)
           = pipeline e i opts (song_title song) (song_artist song) s2"
proof -
  let ?s1 = "updateSongStatus i Processing (Some 5) (registerJob i opts s)"
  obtain cached s2 where C: "checkCache (fs_lookup e) (now e) (song_title song)
      (song_artist song) (quality opts) ?s1 = (cached, s2)"
    by (cases "checkCache (fs_lookup e) (now e) (song_title song)
      (song_artist song) (quality opts) ?s1")
  have "cached = cacheHit e opts song ?s1"
    using C by (simp add: cacheHit_def)
  also have "\<dots> = cacheHit e opts song s"
    by (rule cacheHit_frame) simp
  finally have "cached = None \<or> useCache opts \<noteq> Some True"
    using miss by (auto simp: cacheUsed_def)
  with song C show ?thesis
    by (auto simp: tryBody_def Let_def)
qed

text \<open>
  The fatal stage failures of C4 make the body throw: when the cache is not used, an
  acquisition that ends without a path throws \<open>Could not acquire audio\<close>, and after
  a successful acquisition an error of the separation is thrown on.
\<close>

theorem stage_failures_throw:
  assumes song: "getSong i s = Some song" and miss: "\<not> cacheUsed e opts song s"
    and fb: "findBestMatch e = Inr tr"
  shows "(\<not> truthy (audioPathOf e) \<longrightarrow>
            fst (tryBody e i opts (registerJob i opts s))
              = Inl (''Could not acquire audio for: '' @ song_artist song @ '' - ''
                       @ song_title song))
         \<and> (truthy (audioPathOf e) \<and> snd (separateVocals e) = Inl err \<longrightarrow>
              fst (tryBody e i opts (registerJob i opts s)) = Inl err)"
proof -
  let ?ttl = "song_title song" and ?art = "song_artist song"
  from tryBody_miss [OF song miss] obtain s2
    where t: "tryBody e i opts (registerJob i opts s) = pipeline e i opts ?ttl ?art s2"
    by blast
  obtain a s3 where A: "acquire e i ?ttl ?art s2 = (a, s3)"
    by (cases "acquire e i ?ttl ?art s2")
  have a: "a = (if truthy (audioPathOf e) then Inr (the (audioPathOf e))
                else Inl (''Could not acquire audio for: '' @ ?art @ '' - '' @ ?ttl))"
    using acquire_outcome [of e i ?ttl ?art s2] A fb by simp
  have 1: "fst (pipeline e i opts ?ttl ?art s2)
      = Inl (''Could not acquire audio for: '' @ ?art @ '' - '' @ ?ttl)"
    if "\<not> truthy (audioPathOf e)"
    using that A a by (simp add: pipeline_def)
  have 2: "fst (pipeline e i opts ?ttl ?art s2) = Inl err"
    if ap: "truthy (audioPathOf e)" and sp: "snd (separateVocals e) = Inl err"
  proof -
    obtain y s4 where Y: "youtube e i ?ttl ?art s3 = (y, s4)"
      by (cases "youtube e i ?ttl ?art s3")
    obtain s5 where B: "separate e i opts (the (audioPathOf e)) s4 = (Inl err, s5)"
      using separate_outcome [of e i opts "the (audioPathOf e)" s4] sp
      by (cases "separate e i opts (the (audioPathOf e)) s4") simp
    from ap A a Y B show ?thesis
      by (simp add: pipeline_def)
  qed
  from 1 2 t show ?thesis by simp
qed

theorem stage_failures_throw_witness:
  "\<not> truthy (audioPathOf quietEnv)
   \<and> fst (tryBody quietEnv ''s1'' routeOptions (registerJob ''s1'' routeOptions oneQueued))
       = Inl ''Could not acquire audio for: Queen - Bohemian Rhapsody''
   \<and> truthy (audioPathOf demucsEnv)
   \<and> fst (tryBody demucsEnv ''s1'' routeOptions (registerJob ''s1'' routeOptions oneQueued))
       = Inl ''Demucs failed with exit code 1''"
proof -
  let ?song = "mkSong ''s1'' Queued 0 1"
  have 1: "getSong ''s1'' oneQueued = Some ?song"
    by (simp add: getSong_def joined_def example_defs)
  have 2: "\<not> cacheUsed e routeOptions ?song oneQueued" for e
    by (simp add: cacheUsed_def routeOptions_def)
  have 3: "findBestMatch quietEnv = Inr None" "findBestMatch demucsEnv = Inr None"
    by (simp_all add: quietEnv_def demucsEnv_def)
  have 4: "\<not> truthy (audioPathOf quietEnv)" "truthy (audioPathOf demucsEnv)"
    "snd (separateVocals demucsEnv) = Inl ''Demucs failed with exit code 1''"
    by (simp_all add: audioPathOf_def quietEnv_def demucsEnv_def truthy_def)
  from stage_failures_throw [OF 1 2 3(1), of "''x''"]
    stage_failures_throw [OF 1 2 3(2), of "''Demucs failed with exit code 1''"] 4
  show ?thesis
    by (simp add: mkSong_def)
qed

end
